theory Spec2Isabelle
  imports Main
begin

section \<open>JSON values and JSON text\<close>

text \<open>
  The file-based server keeps its whole collection as one JSON document: \<^verbatim>\<open>writeJson\<close> writes
  \<^verbatim>\<open>JSON.stringify(obj, null, 2)\<close> and \<^verbatim>\<open>readJson\<close> reads it back with \<^verbatim>\<open>JSON.parse\<close>.
  Both are functions of the JavaScript platform; they are modelled here on byte strings
  (\<^typ>\<open>string\<close> holds the UTF-8 bytes of the text).

  Limits of this model of the platform: numbers are integers of any size (no fraction, no
  exponent: the parser refuses them), a \<^verbatim>\<open>\u\<close> escape is read only below \<^verbatim>\<open>\u0080\<close>, and an object
  keeps its members in the order of the text, repeated keys included. None of the documents the
  server writes contains a number, such an escape or a repeated key.
\<close>

datatype json =
    JNull
  | JBool bool
  | JNum int
  | JStr string
  | JArr "json list"
  | JObj "(string \<times> json) list"

text \<open>JavaScript's truthiness, on the values \<^verbatim>\<open>JSON.parse\<close> can return.\<close>

fun truthy :: "json \<Rightarrow> bool" where
  "truthy JNull = False"
| "truthy (JBool b) = b"
| "truthy (JNum n) = (n \<noteq> 0)"
| "truthy (JStr s) = (s \<noteq> [])"
| "truthy (JArr vs) = True"
| "truthy (JObj ms) = True"

subsection \<open>Decimal numerals\<close>

fun show_nat :: "nat \<Rightarrow> string" where
  "show_nat n =
     (if n < 10 then [char_of (48 + n)]
      else show_nat (n div 10) @ [char_of (48 + n mod 10)])"

declare show_nat.simps [simp del]

definition show_int :: "int \<Rightarrow> string" where
  "show_int i = (if i < 0 then CHR ''-'' # show_nat (nat (- i)) else show_nat (nat i))"

definition is_digit :: "char \<Rightarrow> bool" where
  "is_digit c = (48 \<le> (of_char c :: nat) \<and> (of_char c :: nat) \<le> 57)"

fun parse_digits :: "nat \<Rightarrow> string \<Rightarrow> nat \<times> string" where
  "parse_digits acc [] = (acc, [])"
| "parse_digits acc (c # cs) =
     (if is_digit c then parse_digits (acc * 10 + (of_char c - 48)) cs else (acc, c # cs))"

definition parse_unsigned :: "string \<Rightarrow> (nat \<times> string) option" where
  "parse_unsigned cs =
     (case cs of
        [] \<Rightarrow> None
      | c # r \<Rightarrow>
          if c = CHR ''0'' then Some (0, r)
          else if is_digit c then Some (parse_digits 0 cs)
          else None)"

definition parse_number :: "string \<Rightarrow> (int \<times> string) option" where
  "parse_number cs =
     (case cs of
        [] \<Rightarrow> None
      | c # r \<Rightarrow>
          if c = CHR ''-'' then
            (case parse_unsigned r of None \<Rightarrow> None | Some (n, t) \<Rightarrow> Some (- int n, t))
          else
            (case parse_unsigned cs of None \<Rightarrow> None | Some (n, t) \<Rightarrow> Some (int n, t)))"

subsection \<open>String literals\<close>

definition hex_digit :: "nat \<Rightarrow> char" where
  "hex_digit n = (''0123456789abcdef'' ! n)"

definition quote_char :: "char \<Rightarrow> string" where
  "quote_char c =
     (if c = CHR 0x22 then [CHR 0x5C, CHR 0x22]
      else if c = CHR 0x5C then [CHR 0x5C, CHR 0x5C]
      else if c = CHR 0x08 then [CHR 0x5C, CHR ''b'']
      else if c = CHR 0x0C then [CHR 0x5C, CHR ''f'']
      else if c = CHR 0x0A then [CHR 0x5C, CHR ''n'']
      else if c = CHR 0x0D then [CHR 0x5C, CHR ''r'']
      else if c = CHR 0x09 then [CHR 0x5C, CHR ''t'']
      else if (of_char c :: nat) < 32 then
        [CHR 0x5C, CHR ''u'', CHR ''0'', CHR ''0'',
         hex_digit (of_char c div 16), hex_digit (of_char c mod 16)]
      else [c])"

definition quote :: "string \<Rightarrow> string" where
  "quote s = CHR 0x22 # concat (map quote_char s) @ [CHR 0x22]"

definition hex_val :: "char \<Rightarrow> nat option" where
  "hex_val c =
     (let n = (of_char c :: nat) in
      if 48 \<le> n \<and> n \<le> 57 then Some (n - 48)
      else if 97 \<le> n \<and> n \<le> 102 then Some (n - 87)
      else if 65 \<le> n \<and> n \<le> 70 then Some (n - 55)
      else None)"

definition hex4 :: "char \<Rightarrow> char \<Rightarrow> char \<Rightarrow> char \<Rightarrow> char option" where
  "hex4 a b c d =
     (case (hex_val a, hex_val b, hex_val c, hex_val d) of
        (Some w, Some x, Some y, Some z) \<Rightarrow>
          (let n = ((w * 16 + x) * 16 + y) * 16 + z
           in if n < 128 then Some (char_of n) else None)
      | _ \<Rightarrow> None)"

definition unescape :: "char \<Rightarrow> char option" where
  "unescape e =
     (if e = CHR 0x22 then Some (CHR 0x22)
      else if e = CHR 0x5C then Some (CHR 0x5C)
      else if e = CHR ''/'' then Some (CHR ''/'')
      else if e = CHR ''b'' then Some (CHR 0x08)
      else if e = CHR ''f'' then Some (CHR 0x0C)
      else if e = CHR ''n'' then Some (CHR 0x0A)
      else if e = CHR ''r'' then Some (CHR 0x0D)
      else if e = CHR ''t'' then Some (CHR 0x09)
      else None)"

text \<open>The characters of a string literal after its opening quote, up to the closing one.\<close>

fun parse_chars :: "string \<Rightarrow> (string \<times> string) option" where
  "parse_chars [] = None"
| "parse_chars (c # cs) =
     (if c = CHR 0x22 then Some ([], cs)
      else if c = CHR 0x5C then
        (case cs of
           [] \<Rightarrow> None
         | e # r \<Rightarrow>
             if e = CHR ''u'' then
               (case r of
                  h1 # h2 # h3 # h4 # r' \<Rightarrow>
                    (case hex4 h1 h2 h3 h4 of
                       None \<Rightarrow> None
                     | Some x \<Rightarrow>
                         (case parse_chars r' of
                            None \<Rightarrow> None
                          | Some (s, t) \<Rightarrow> Some (x # s, t)))
                | _ \<Rightarrow> None)
             else
               (case unescape e of
                  None \<Rightarrow> None
                | Some x \<Rightarrow>
                    (case parse_chars r of
                       None \<Rightarrow> None
                     | Some (s, t) \<Rightarrow> Some (x # s, t))))
      else if (of_char c :: nat) < 32 then None
      else
        (case parse_chars cs of
           None \<Rightarrow> None
         | Some (s, t) \<Rightarrow> Some (c # s, t)))"

subsection \<open>\<^verbatim>\<open>JSON.stringify(v, null, 2)\<close>\<close>

definition newline_indent :: "nat \<Rightarrow> string" where
  "newline_indent i = CHR 0x0A # replicate i (CHR '' '')"

fun stringify_at :: "nat \<Rightarrow> json \<Rightarrow> string"
  and stringify_items :: "nat \<Rightarrow> json list \<Rightarrow> string"
  and stringify_members :: "nat \<Rightarrow> (string \<times> json) list \<Rightarrow> string"
where
  "stringify_at i JNull = ''null''"
| "stringify_at i (JBool b) = (if b then ''true'' else ''false'')"
| "stringify_at i (JNum n) = show_int n"
| "stringify_at i (JStr s) = quote s"
| "stringify_at i (JArr []) = ''[]''"
| "stringify_at i (JArr (v # vs)) =
     ''['' @ newline_indent (i + 2) @ stringify_items (i + 2) (v # vs) @ newline_indent i @ '']''"
| "stringify_at i (JObj []) = ''{}''"
| "stringify_at i (JObj (m # ms)) =
     ''{'' @ newline_indent (i + 2) @ stringify_members (i + 2) (m # ms) @ newline_indent i @ ''}''"
| "stringify_items i [] = []"
| "stringify_items i [v] = stringify_at i v"
| "stringify_items i (v # w # vs) =
     stringify_at i v @ '','' @ newline_indent i @ stringify_items i (w # vs)"
| "stringify_members i [] = []"
| "stringify_members i [(k, v)] = quote k @ '': '' @ stringify_at i v"
| "stringify_members i ((k, v) # m # ms) =
     quote k @ '': '' @ stringify_at i v @ '','' @ newline_indent i @ stringify_members i (m # ms)"

definition stringify :: "json \<Rightarrow> string" where
  "stringify v = stringify_at 0 v"

subsection \<open>\<^verbatim>\<open>JSON.parse\<close>\<close>

definition is_ws :: "char \<Rightarrow> bool" where
  "is_ws c = (c = CHR '' '' \<or> c = CHR 0x09 \<or> c = CHR 0x0A \<or> c = CHR 0x0D)"

definition skip_ws :: "string \<Rightarrow> string" where
  "skip_ws cs = dropWhile is_ws cs"

definition strip_prefix :: "string \<Rightarrow> string \<Rightarrow> string option" where
  "strip_prefix p cs = (if take (length p) cs = p then Some (drop (length p) cs) else None)"

text \<open>
  A recursive-descent parser. The first argument bounds the depth of the recursion; \<open>JSON_parse\<close>
  below passes a bound that no text exhausts: a larger one returns the same result (lemma
  \<open>parse_value_fuel\<close>).
\<close>

fun parse_value :: "nat \<Rightarrow> string \<Rightarrow> (json \<times> string) option"
  and parse_items :: "nat \<Rightarrow> string \<Rightarrow> (json list \<times> string) option"
  and parse_members :: "nat \<Rightarrow> string \<Rightarrow> ((string \<times> json) list \<times> string) option"
where
  "parse_value 0 cs = None"
| "parse_value (Suc n) cs =
     (case skip_ws cs of
        [] \<Rightarrow> None
      | c # r \<Rightarrow>
          if c = CHR ''['' then
            (case skip_ws r of
               [] \<Rightarrow> None
             | d # r' \<Rightarrow>
                 if d = CHR '']'' then Some (JArr [], r')
                 else (case parse_items n (d # r') of
                         None \<Rightarrow> None
                       | Some (vs, t) \<Rightarrow> Some (JArr vs, t)))
          else if c = CHR ''{'' then
            (case skip_ws r of
               [] \<Rightarrow> None
             | d # r' \<Rightarrow>
                 if d = CHR ''}'' then Some (JObj [], r')
                 else (case parse_members n (d # r') of
                         None \<Rightarrow> None
                       | Some (ms, t) \<Rightarrow> Some (JObj ms, t)))
          else if c = CHR 0x22 then
            (case parse_chars r of None \<Rightarrow> None | Some (s, t) \<Rightarrow> Some (JStr s, t))
          else if c = CHR ''-'' \<or> is_digit c then
            (case parse_number (c # r) of None \<Rightarrow> None | Some (k, t) \<Rightarrow> Some (JNum k, t))
          else
            (case strip_prefix ''null'' (c # r) of
               Some t \<Rightarrow> Some (JNull, t)
             | None \<Rightarrow>
                 (case strip_prefix ''true'' (c # r) of
                    Some t \<Rightarrow> Some (JBool True, t)
                  | None \<Rightarrow>
                      (case strip_prefix ''false'' (c # r) of
                         Some t \<Rightarrow> Some (JBool False, t)
                       | None \<Rightarrow> None))))"
| "parse_items 0 cs = None"
| "parse_items (Suc n) cs =
     (case parse_value n cs of
        None \<Rightarrow> None
      | Some (v, r) \<Rightarrow>
          (case skip_ws r of
             [] \<Rightarrow> None
           | c # r' \<Rightarrow>
               if c = CHR '','' then
                 (case parse_items n r' of None \<Rightarrow> None | Some (vs, t) \<Rightarrow> Some (v # vs, t))
               else if c = CHR '']'' then Some ([v], r')
               else None))"
| "parse_members 0 cs = None"
| "parse_members (Suc n) cs =
     (case skip_ws cs of
        [] \<Rightarrow> None
      | q # r \<Rightarrow>
          if q = CHR 0x22 then
            (case parse_chars r of
               None \<Rightarrow> None
             | Some (k, r1) \<Rightarrow>
                 (case skip_ws r1 of
                    [] \<Rightarrow> None
                  | c1 # r2 \<Rightarrow>
                      if c1 = CHR '':'' then
                        (case parse_value n r2 of
                           None \<Rightarrow> None
                         | Some (v, r3) \<Rightarrow>
                             (case skip_ws r3 of
                                [] \<Rightarrow> None
                              | c3 # r4 \<Rightarrow>
                                  if c3 = CHR '','' then
                                    (case parse_members n r4 of
                                       None \<Rightarrow> None
                                     | Some (ms, t) \<Rightarrow> Some ((k, v) # ms, t))
                                  else if c3 = CHR ''}'' then Some ([(k, v)], r4)
                                  else None))
                      else None))
          else None)"

definition JSON_parse :: "string \<Rightarrow> json option" where
  "JSON_parse cs =
     (case parse_value (2 * length cs + 2) cs of
        None \<Rightarrow> None
      | Some (v, r) \<Rightarrow> if skip_ws r = [] then Some v else None)"

section \<open>The file system\<close>

text \<open>
  A file system maps the text of a path to the bytes of the file there. The file-based server
  builds its paths from fixed parts only, the store \<^verbatim>\<open>data/series.json\<close> and the uploads
  \<^verbatim>\<open>uploads/<filename>\<close> under \<^verbatim>\<open>__dirname\<close>; its paths are written from \<^verbatim>\<open>__dirname\<close>:
  \<^verbatim>\<open>/data/series.json\<close>, \<^verbatim>\<open>/uploads/<name>\<close>. The in-memory server joins a string it takes from a
  record to \<^verbatim>\<open>__dirname\<close>, so there a file is keyed by its absolute path in normal form (no empty
  segment, no \<^verbatim>\<open>.\<close>, no \<^verbatim>\<open>..\<close>, no slash at the end), and \<^verbatim>\<open>__dirname\<close> is an argument of its
  handlers.
\<close>

type_synonym path = string
type_synonym filesystem = "path \<rightharpoonup> string"

datatype fs_error = ENOENT

definition readFileSync :: "filesystem \<Rightarrow> path \<Rightarrow> fs_error + string" where
  "readFileSync fs p = (case fs p of None \<Rightarrow> Inl ENOENT | Some d \<Rightarrow> Inr d)"

definition writeFileSync :: "filesystem \<Rightarrow> path \<Rightarrow> string \<Rightarrow> filesystem" where
  "writeFileSync fs p d = fs(p \<mapsto> d)"

definition existsSync :: "filesystem \<Rightarrow> path \<Rightarrow> bool" where
  "existsSync fs p = (fs p \<noteq> None)"

definition unlinkSync :: "filesystem \<Rightarrow> path \<Rightarrow> fs_error + filesystem" where
  "unlinkSync fs p = (case fs p of None \<Rightarrow> Inl ENOENT | Some d \<Rightarrow> Inr (fs(p := None)))"

text \<open>
  \<^verbatim>\<open>fs.writeFileSync(file, data)\<close> opens \<open>file\<close> with the flag \<^verbatim>\<open>w\<close>, which empties it, and then
  writes the bytes of \<open>data\<close> in order. \<open>writeFileSync_crash fs p d k\<close> is the file system a crash
  leaves behind when the process stops after \<open>k\<close> bytes have reached the file.
\<close>

definition writeFileSync_crash :: "filesystem \<Rightarrow> path \<Rightarrow> string \<Rightarrow> nat \<Rightarrow> filesystem" where
  "writeFileSync_crash fs p d k = fs(p \<mapsto> take k d)"

subsection \<open>\<^verbatim>\<open>path.join\<close> and \<^verbatim>\<open>path.normalize\<close> (POSIX)\<close>

text \<open>\<open>split_on sep x\<close> is \<^verbatim>\<open>x.split(sep)\<close> for a separator of one character.\<close>

fun split_on :: "char \<Rightarrow> string \<Rightarrow> string list" where
  "split_on sep [] = [[]]"
| "split_on sep (c # cs) =
     (if c = sep then [] # split_on sep cs
      else (case split_on sep cs of [] \<Rightarrow> [[c]] | s # ss \<Rightarrow> (c # s) # ss))"

text \<open>
  Node's \<^verbatim>\<open>normalizeString\<close> on the segments of a path: \<open>res\<close> holds the segments kept so far,
  the last one first. An empty segment and \<^verbatim>\<open>.\<close> are dropped; \<^verbatim>\<open>..\<close> takes the last kept segment
  away, and where there is none to take (or only \<^verbatim>\<open>..\<close> segments) it is kept when the path is
  relative and dropped when it is absolute.
\<close>

fun normalizeString :: "bool \<Rightarrow> string list \<Rightarrow> string list \<Rightarrow> string list" where
  "normalizeString allowAboveRoot res [] = rev res"
| "normalizeString allowAboveRoot res (s # ss) =
     (if s = [] \<or> s = ''.'' then normalizeString allowAboveRoot res ss
      else if s = ''..'' then
        (case res of
           [] \<Rightarrow> normalizeString allowAboveRoot (if allowAboveRoot then [''..''] else []) ss
         | t # ts \<Rightarrow>
             if t = ''..'' then
               normalizeString allowAboveRoot (if allowAboveRoot then ''..'' # res else res) ss
             else normalizeString allowAboveRoot ts ss)
      else normalizeString allowAboveRoot (s # res) ss)"

text \<open>\<open>join_with sep xs\<close> is \<^verbatim>\<open>xs.join(sep)\<close>.\<close>

fun join_with :: "string \<Rightarrow> string list \<Rightarrow> string" where
  "join_with sep [] = []"
| "join_with sep [x] = x"
| "join_with sep (x # y # r) = x @ sep @ join_with sep (y # r)"

text \<open>
  \<^verbatim>\<open>path.normalize(p)\<close>: a slash in front when \<open>p\<close> is absolute, the kept segments, and a slash
  at the end when \<open>p\<close> has one; what names no segment at all is \<^verbatim>\<open>/\<close>, \<^verbatim>\<open>./\<close> or \<^verbatim>\<open>.\<close>.
\<close>

definition path_normalize :: "path \<Rightarrow> path" where
  "path_normalize p =
     (if p = [] then ''.''
      else
        (let isAbsolute = (hd p = CHR ''/'');
             trailingSeparator = (last p = CHR ''/'');
             p' = join_with ''/'' (normalizeString (\<not> isAbsolute) [] (split_on CHR ''/'' p))
         in if p' = [] then
              (if isAbsolute then ''/'' else if trailingSeparator then ''./'' else ''.'')
            else (if isAbsolute then ''/'' else []) @ p' @ (if trailingSeparator then ''/'' else [])))"

text \<open>\<^verbatim>\<open>path.join(a, b)\<close>: the arguments that are not empty, joined by a slash and normalised.\<close>

definition path_join :: "path \<Rightarrow> string \<Rightarrow> path" where
  "path_join a b =
     (if a = [] then (if b = [] then ''.'' else path_normalize b)
      else if b = [] then path_normalize a
      else path_normalize (a @ ''/'' @ b))"

subsection \<open>\<^verbatim>\<open>readJson\<close> and \<^verbatim>\<open>writeJson\<close> (server.js, lines 26 to 35)\<close>

definition readJson :: "filesystem \<Rightarrow> path \<Rightarrow> json \<Rightarrow> json" where
  "readJson fs file fallback =
     (case readFileSync fs file of
        Inl e \<Rightarrow> fallback
      | Inr content \<Rightarrow>
          (case JSON_parse (if content = [] then ''null'' else content) of
             None \<Rightarrow> fallback
           | Some v \<Rightarrow> if truthy v then v else fallback))"

definition writeJson :: "filesystem \<Rightarrow> path \<Rightarrow> json \<Rightarrow> filesystem" where
  "writeJson fs file obj = writeFileSync fs file (stringify obj)"

definition writeJson_crash :: "filesystem \<Rightarrow> path \<Rightarrow> json \<Rightarrow> nat \<Rightarrow> filesystem" where
  "writeJson_crash fs file obj k = writeFileSync_crash fs file (stringify obj) k"

section \<open>Series and episodes\<close>

text \<open>
  The records the two servers build. An episode of the file-based server carries \<^verbatim>\<open>type\<close> and,
  when it was uploaded, \<^verbatim>\<open>fileName\<close>; an episode of the in-memory server carries neither. The
  in-memory server copies \<^verbatim>\<open>title\<close> and \<^verbatim>\<open>src\<close> from the request without looking at them when it
  creates a series, so an episode can be without either: the field is \<open>None\<close> where the property
  is \<^verbatim>\<open>undefined\<close>. Every field value that is there is taken to be a string: a request whose JSON
  body puts a number or an object in a field is outside this model.
\<close>

record episode =
  e_id :: string
  e_title :: "string option"
  e_type :: "string option"
  e_src :: "string option"
  e_pseudo :: string
  e_fileName :: "string option"

record series =
  s_id :: string
  s_name :: string
  s_desc :: string
  s_image :: string
  s_pseudo :: string
  s_episodes :: "episode list"

subsection \<open>The records as JSON objects\<close>

definition episode_to_json :: "episode \<Rightarrow> json" where
  "episode_to_json e =
     JObj ([(''id'', JStr (e_id e))]
           @ (case e_title e of None \<Rightarrow> [] | Some t \<Rightarrow> [(''title'', JStr t)])
           @ (case e_type e of None \<Rightarrow> [] | Some t \<Rightarrow> [(''type'', JStr t)])
           @ (case e_src e of None \<Rightarrow> [] | Some x \<Rightarrow> [(''src'', JStr x)])
           @ [(''pseudo'', JStr (e_pseudo e))]
           @ (case e_fileName e of None \<Rightarrow> [] | Some f \<Rightarrow> [(''fileName'', JStr f)]))"

definition series_to_json :: "series \<Rightarrow> json" where
  "series_to_json s =
     JObj [(''id'', JStr (s_id s)), (''name'', JStr (s_name s)), (''desc'', JStr (s_desc s)),
           (''image'', JStr (s_image s)), (''pseudo'', JStr (s_pseudo s)),
           (''episodes'', JArr (map episode_to_json (s_episodes s)))]"

definition collection_to_json :: "series list \<Rightarrow> json" where
  "collection_to_json c = JArr (map series_to_json c)"

fun take_str :: "string \<Rightarrow> (string \<times> json) list \<Rightarrow> (string \<times> (string \<times> json) list) option" where
  "take_str k ((k', JStr x) # ms) = (if k' = k then Some (x, ms) else None)"
| "take_str k ms = None"

fun take_opt_str :: "string \<Rightarrow> (string \<times> json) list \<Rightarrow> string option \<times> (string \<times> json) list" where
  "take_opt_str k ((k', JStr x) # ms) = (if k' = k then (Some x, ms) else (None, (k', JStr x) # ms))"
| "take_opt_str k ms = (None, ms)"

definition episode_of_json :: "json \<Rightarrow> episode option" where
  "episode_of_json v =
     (case v of
        JObj m0 \<Rightarrow>
          (case take_str ''id'' m0 of None \<Rightarrow> None | Some (i, m1) \<Rightarrow>
           case take_opt_str ''title'' m1 of (t, m2) \<Rightarrow>
           case take_opt_str ''type'' m2 of (ty, m3) \<Rightarrow>
           case take_opt_str ''src'' m3 of (sr, m4) \<Rightarrow>
           case take_str ''pseudo'' m4 of None \<Rightarrow> None | Some (ps, m5) \<Rightarrow>
           case take_opt_str ''fileName'' m5 of (fn, m6) \<Rightarrow>
             if m6 = [] then
               Some \<lparr>e_id = i, e_title = t, e_type = ty, e_src = sr, e_pseudo = ps, e_fileName = fn\<rparr>
             else None)
      | _ \<Rightarrow> None)"

definition series_of_json :: "json \<Rightarrow> series option" where
  "series_of_json v =
     (case v of
        JObj m0 \<Rightarrow>
          (case take_str ''id'' m0 of None \<Rightarrow> None | Some (i, m1) \<Rightarrow>
           case take_str ''name'' m1 of None \<Rightarrow> None | Some (n, m2) \<Rightarrow>
           case take_str ''desc'' m2 of None \<Rightarrow> None | Some (d, m3) \<Rightarrow>
           case take_str ''image'' m3 of None \<Rightarrow> None | Some (im, m4) \<Rightarrow>
           case take_str ''pseudo'' m4 of None \<Rightarrow> None | Some (ps, m5) \<Rightarrow>
           case m5 of
             [(k, JArr es)] \<Rightarrow>
               if k = ''episodes'' then
                 (case those (map episode_of_json es) of
                    None \<Rightarrow> None
                  | Some eps \<Rightarrow>
                      Some \<lparr>s_id = i, s_name = n, s_desc = d, s_image = im, s_pseudo = ps,
                            s_episodes = eps\<rparr>)
               else None
           | _ \<Rightarrow> None)
      | _ \<Rightarrow> None)"

definition collection_of_json :: "json \<Rightarrow> series list option" where
  "collection_of_json v =
     (case v of JArr vs \<Rightarrow> those (map series_of_json vs) | _ \<Rightarrow> None)"

section \<open>Requests and responses\<close>

text \<open>
  The payload of a verified token: \<^verbatim>\<open>req.user\<close>. The file-based server signs only the
  username and never reads \<open>p_isAdmin\<close>; the in-memory server signs both fields. A handler below
  receives \<open>None\<close> for \<^verbatim>\<open>req.user\<close> when \<^verbatim>\<open>authMiddleware\<close> finds no header or \<^verbatim>\<open>jwt.verify\<close>
  refuses the token, and answers 401 as the middleware does.
\<close>

record payload =
  p_username :: string
  p_isAdmin :: bool

text \<open>
  A file part of a multipart request as multer hands it over in \<^verbatim>\<open>req.file\<close> or \<^verbatim>\<open>req.files\<close>:
  \<^verbatim>\<open>file.fieldname\<close>, \<^verbatim>\<open>file.originalname\<close>, the \<^verbatim>\<open>file.filename\<close> the storage's \<^verbatim>\<open>filename\<close> callback
  generated, and the bytes. Multer hands over only a part it has accepted and stored: under
  \<^verbatim>\<open>upload.single('file')\<close> the part named \<^verbatim>\<open>file\<close>, under \<^verbatim>\<open>upload.single('video')\<close> the part named
  \<^verbatim>\<open>video\<close>, under \<^verbatim>\<open>upload.any()\<close> every part. Both servers store it as \<^verbatim>\<open>uploads/<filename>\<close>
  under \<^verbatim>\<open>__dirname\<close>: that is \<^verbatim>\<open>file.path\<close>, here as the file-based server's file system writes
  it.
\<close>

record uploaded_file =
  fieldname :: string
  originalname :: string
  filename :: string
  content :: string

definition file_path :: "uploaded_file \<Rightarrow> path" where
  "file_path f = ''/uploads/'' @ filename f"

definition multer_store :: "filesystem \<Rightarrow> uploaded_file \<Rightarrow> filesystem" where
  "multer_store fs f = fs(file_path f \<mapsto> content f)"

text \<open>
  The errors the handlers answer with, named after what they report; \<open>status\<close> is the HTTP
  status of each: \<^verbatim>\<open>res.status(...).json({ error: ... })\<close>.
\<close>

datatype error =
    Unauthorized
  | Forbidden
  | MissingSeriesName
  | SeriesAlreadyExists
  | SeriesNotFound
  | EpisodeNotFound
  | MissingSrc
  | PseudoAndNameRequired
  | InvalidEpisodesFormat
  | EpisodeRequired
  | FileOrUrlRequired
  | ServerError

fun status :: "error \<Rightarrow> nat" where
  "status Unauthorized = 401"
| "status Forbidden = 403"
| "status MissingSeriesName = 400"
| "status SeriesAlreadyExists = 400"
| "status SeriesNotFound = 404"
| "status EpisodeNotFound = 404"
| "status MissingSrc = 400"
| "status PseudoAndNameRequired = 400"
| "status InvalidEpisodesFormat = 400"
| "status EpisodeRequired = 400"
| "status FileOrUrlRequired = 400"
| "status ServerError = 500"

datatype response =
    Error error
  | SeriesCreated series
  | SuccessWithSeries series
  | EpisodeCreated episode
  | Success

text \<open>
  A field of a request body is \<open>None\<close> when the body does not have it. \<open>or_else x d\<close> is
  JavaScript's \<^verbatim>\<open>x || d\<close> on such a field: the empty string is falsy too.
\<close>

definition or_else :: "string option \<Rightarrow> string \<Rightarrow> string" where
  "or_else x d = (case x of None \<Rightarrow> d | Some v \<Rightarrow> if v = [] then d else v)"

definition startsWith :: "string \<Rightarrow> string \<Rightarrow> bool" where
  "startsWith x p = (take (length p) x = p)"

text \<open>
  \<open>update_first p f xs\<close>: \<^verbatim>\<open>const s = xs.find(p)\<close> followed by a mutation \<open>f\<close> of \<open>s\<close> in place;
  \<open>remove_first p xs\<close>: \<^verbatim>\<open>xs.splice(xs.findIndex(p), 1)\<close> when an element satisfies \<open>p\<close>.
\<close>

fun update_first :: "('a \<Rightarrow> bool) \<Rightarrow> ('a \<Rightarrow> 'a) \<Rightarrow> 'a list \<Rightarrow> 'a list" where
  "update_first p f [] = []"
| "update_first p f (x # xs) = (if p x then f x # xs else x # update_first p f xs)"

fun remove_first :: "('a \<Rightarrow> bool) \<Rightarrow> 'a list \<Rightarrow> 'a list" where
  "remove_first p [] = []"
| "remove_first p (x # xs) = (if p x then xs else x # remove_first p xs)"

text \<open>The default title \<^verbatim>\<open>`Episode ${n}`\<close>, its first letter an E with an acute accent (two bytes).\<close>

definition episode_title :: "nat \<Rightarrow> string" where
  "episode_title n = CHR 0xC3 # CHR 0x89 # ''pisode '' @ show_nat n"

section \<open>The file-based server (server.js, lines 1 to 208)\<close>

definition SERIES_FILE :: path where
  "SERIES_FILE = ''/data/series.json''"

text \<open>\<^verbatim>\<open>process.env.ADMIN_USERNAME || 'AnimeForever-admin'\<close>, from the environment variable.\<close>

definition ADMIN_USERNAME :: "string option \<Rightarrow> string" where
  "ADMIN_USERNAME env = or_else env ''AnimeForever-admin''"

definition isAdmin :: "string option \<Rightarrow> payload \<Rightarrow> bool" where
  "isAdmin env user = (p_username user = ADMIN_USERNAME env)"

text \<open>
  \<^verbatim>\<open>Date.now() + '-' + Math.round(Math.random()*1e9)\<close>: the clock and the random draw are inputs
  of the handler that makes an id.
\<close>

definition time_random_id :: "nat \<Rightarrow> nat \<Rightarrow> string" where
  "time_random_id now rnd = show_nat now @ ''-'' @ show_nat rnd"

text \<open>
  \<^verbatim>\<open>readJson(SERIES_FILE, [])\<close>, read as a list of series. The handlers use what they read as an
  array of series objects without checking it. A stored document that is JSON but not such an
  array (\<open>None\<close> here) makes them throw or misbehave each in its own way; the model answers 500
  and leaves the store alone there, and no theorem below is about that case.
\<close>

definition load_series :: "filesystem \<Rightarrow> series list option" where
  "load_series fs = collection_of_json (readJson fs SERIES_FILE (JArr []))"

definition save_series :: "filesystem \<Rightarrow> series list \<Rightarrow> filesystem" where
  "save_series fs c = writeJson fs SERIES_FILE (collection_to_json c)"

text \<open>
  \<^verbatim>\<open>GET /api/series\<close> (lines 117 to 120) answers with whatever \<^verbatim>\<open>readJson\<close> returns.
\<close>

definition get_series_A :: "filesystem \<Rightarrow> json" where
  "get_series_A fs = readJson fs SERIES_FILE (JArr [])"

text \<open>
  \<^verbatim>\<open>POST /api/series\<close> (lines 122 to 139). \<open>toLowerCase\<close> stands for
  \<^verbatim>\<open>String.prototype.toLowerCase\<close>.
\<close>

definition post_series_A ::
  "(string \<Rightarrow> string) \<Rightarrow> filesystem \<Rightarrow> payload option \<Rightarrow> string option \<Rightarrow> string option \<Rightarrow>
   string option \<Rightarrow> nat \<Rightarrow> nat \<Rightarrow> response \<times> filesystem" where
  "post_series_A toLowerCase fs auth name desc image' now rnd =
     (case auth of
        None \<Rightarrow> (Error Unauthorized, fs)
      | Some user \<Rightarrow>
          if or_else name [] = [] then (Error MissingSeriesName, fs)
          else
            (case load_series fs of
               None \<Rightarrow> (Error ServerError, fs)
             | Some series \<Rightarrow>
                 (case find (\<lambda>s. toLowerCase (s_name s) = toLowerCase (or_else name [])) series of
                    Some s \<Rightarrow> (Error SeriesAlreadyExists, fs)
                  | None \<Rightarrow>
                      (let newSeries =
                             \<lparr>s_id = time_random_id now rnd, s_name = or_else name [],
                              s_desc = or_else desc [], s_image = or_else image' [],
                              s_pseudo = p_username user, s_episodes = []\<rparr>
                       in (SeriesCreated newSeries, save_series fs (series @ [newSeries]))))))"

text \<open>
  \<^verbatim>\<open>POST /api/series/:id/episodes\<close> (lines 144 to 165): \<^verbatim>\<open>authMiddleware\<close>, then
  \<^verbatim>\<open>upload.single('file')\<close>, which stores the file part if the request has one, then the handler.
\<close>

definition post_episode_A ::
  "filesystem \<Rightarrow> payload option \<Rightarrow> string \<Rightarrow> uploaded_file option \<Rightarrow> string option \<Rightarrow>
   string option \<Rightarrow> string option \<Rightarrow> nat \<Rightarrow> nat \<Rightarrow> response \<times> filesystem" where
  "post_episode_A fs0 auth id' file title type src now rnd =
     (case auth of
        None \<Rightarrow> (Error Unauthorized, fs0)
      | Some user \<Rightarrow>
          (let fs = (case file of None \<Rightarrow> fs0 | Some f \<Rightarrow> multer_store fs0 f) in
           case load_series fs of
             None \<Rightarrow> (Error ServerError, fs)
           | Some series \<Rightarrow>
               (case find (\<lambda>x. s_id x = id') series of
                  None \<Rightarrow> (Error SeriesNotFound, fs)
                | Some s \<Rightarrow>
                    (case file of
                       Some f \<Rightarrow>
                         (let url = ''/uploads/'' @ filename f;
                              title' = or_else title (episode_title (length (s_episodes s) + 1));
                              ep = \<lparr>e_id = time_random_id now rnd, e_title = Some title',
                                    e_type = Some ''url'', e_src = Some url,
                                    e_pseudo = p_username user,
                                    e_fileName = Some (originalname f)\<rparr>;
                              push = (\<lambda>x. x\<lparr>s_episodes := s_episodes x @ [ep]\<rparr>)
                          in (SuccessWithSeries (push s),
                              save_series fs (update_first (\<lambda>x. s_id x = id') push series)))
                     | None \<Rightarrow>
                         if or_else src [] = [] then (Error MissingSrc, fs)
                         else
                           (let ep = \<lparr>e_id = time_random_id now rnd,
                                      e_title = Some (or_else title
                                                  (episode_title (length (s_episodes s) + 1))),
                                      e_type = Some (or_else type ''url''),
                                      e_src = Some (or_else src []),
                                      e_pseudo = p_username user,
                                      e_fileName = None\<rparr>;
                                push = (\<lambda>x. x\<lparr>s_episodes := s_episodes x @ [ep]\<rparr>)
                            in (SuccessWithSeries (push s),
                                save_series fs (update_first (\<lambda>x. s_id x = id') push series)))))))"

text \<open>\<^verbatim>\<open>PUT /api/series/:id/image\<close> (lines 168 to 177).\<close>

definition put_image_A ::
  "filesystem \<Rightarrow> payload option \<Rightarrow> string \<Rightarrow> string option \<Rightarrow> response \<times> filesystem" where
  "put_image_A fs auth id' image' =
     (case auth of
        None \<Rightarrow> (Error Unauthorized, fs)
      | Some user \<Rightarrow>
          (case load_series fs of
             None \<Rightarrow> (Error ServerError, fs)
           | Some series \<Rightarrow>
               (case find (\<lambda>x. s_id x = id') series of
                  None \<Rightarrow> (Error SeriesNotFound, fs)
                | Some s \<Rightarrow>
                    (let set_image = (\<lambda>x. x\<lparr>s_image := or_else image' []\<rparr>)
                     in (SuccessWithSeries (set_image s),
                         save_series fs (update_first (\<lambda>x. s_id x = id') set_image series))))))"

text \<open>\<^verbatim>\<open>DELETE /api/series/:id/episodes/:epId\<close> (lines 180 to 191).\<close>

definition delete_episode_A ::
  "string option \<Rightarrow> filesystem \<Rightarrow> payload option \<Rightarrow> string \<Rightarrow> string \<Rightarrow> response \<times> filesystem" where
  "delete_episode_A env fs auth id' epId =
     (case auth of
        None \<Rightarrow> (Error Unauthorized, fs)
      | Some user \<Rightarrow>
          if \<not> isAdmin env user then (Error Forbidden, fs)
          else
            (case load_series fs of
               None \<Rightarrow> (Error ServerError, fs)
             | Some series \<Rightarrow>
                 (case find (\<lambda>x. s_id x = id') series of
                    None \<Rightarrow> (Error SeriesNotFound, fs)
                  | Some s \<Rightarrow>
                      (case find (\<lambda>e. e_id e = epId) (s_episodes s) of
                         None \<Rightarrow> (Error EpisodeNotFound, fs)
                       | Some e \<Rightarrow>
                           (let splice = (\<lambda>x. x\<lparr>s_episodes :=
                                               remove_first (\<lambda>e. e_id e = epId) (s_episodes x)\<rparr>)
                            in (Success,
                                save_series fs (update_first (\<lambda>x. s_id x = id') splice series)))))))"

text \<open>\<^verbatim>\<open>DELETE /api/series/:id\<close> (lines 194 to 203).\<close>

definition delete_series_A ::
  "string option \<Rightarrow> filesystem \<Rightarrow> payload option \<Rightarrow> string \<Rightarrow> response \<times> filesystem" where
  "delete_series_A env fs auth id' =
     (case auth of
        None \<Rightarrow> (Error Unauthorized, fs)
      | Some user \<Rightarrow>
          if \<not> isAdmin env user then (Error Forbidden, fs)
          else
            (case load_series fs of
               None \<Rightarrow> (Error ServerError, fs)
             | Some series \<Rightarrow>
                 (case find (\<lambda>x. s_id x = id') series of
                    None \<Rightarrow> (Error SeriesNotFound, fs)
                  | Some s \<Rightarrow>
                      (Success, save_series fs (remove_first (\<lambda>x. s_id x = id') series)))))"

section \<open>The in-memory server (server.js, lines 208 to 555)\<close>

text \<open>
  Its state: the two module variables \<^verbatim>\<open>series\<close> and \<^verbatim>\<open>nextSeriesId\<close>, and the files on disk,
  each under its absolute path. The first argument of every handler, \<open>dirname\<close>, is the value
  of \<^verbatim>\<open>__dirname\<close>.
\<close>

record server_B =
  series_B :: "series list"
  nextSeriesId :: nat
  files :: filesystem

definition init_B :: "filesystem \<Rightarrow> server_B" where
  "init_B fs = \<lparr>series_B = [], nextSeriesId = 1, files = fs\<rparr>"

text \<open>
  \<^verbatim>\<open>uploadsDir\<close> (line 220), and \<^verbatim>\<open>file.path\<close> of a part: multer's disk storage writes the part
  to \<^verbatim>\<open>path.join(destination, filename)\<close>.
\<close>

definition uploadsDir :: "path \<Rightarrow> path" where
  "uploadsDir dirname = path_join dirname ''uploads''"

definition file_path_B :: "path \<Rightarrow> uploaded_file \<Rightarrow> path" where
  "file_path_B dirname f = path_join (uploadsDir dirname) (filename f)"

definition multer_store_B :: "path \<Rightarrow> filesystem \<Rightarrow> uploaded_file \<Rightarrow> filesystem" where
  "multer_store_B dirname fs f = fs(file_path_B dirname f \<mapsto> content f)"

text \<open>
  An element of \<^verbatim>\<open>episodesData\<close>: \<^verbatim>\<open>ep.title\<close>, the truth value of \<^verbatim>\<open>ep.hasFile\<close>, \<^verbatim>\<open>ep.index\<close> as
  the template \<^verbatim>\<open>`episode_${ep.index}`\<close> prints it, and \<^verbatim>\<open>ep.src\<close>; \<open>None\<close> for a title or a source
  the element does not have.
\<close>

record episode_spec =
  sp_title :: "string option"
  sp_hasFile :: bool
  sp_index :: string
  sp_src :: "string option"

text \<open>
  \<^verbatim>\<open>req.files.forEach(file => fs.unlinkSync(file.path))\<close>: \<open>Inr\<close> the file system when every
  call returned, \<open>Inl\<close> the file system at the first call that threw.
\<close>

fun unlink_each :: "path \<Rightarrow> filesystem \<Rightarrow> uploaded_file list \<Rightarrow> filesystem + filesystem" where
  "unlink_each dirname fs [] = Inr fs"
| "unlink_each dirname fs (f # r) =
     (case unlinkSync fs (file_path_B dirname f) of
        Inl e \<Rightarrow> Inl fs
      | Inr fs' \<Rightarrow> unlink_each dirname fs' r)"

text \<open>The same loop with each call in its own \<^verbatim>\<open>try\<close>, as the \<^verbatim>\<open>catch\<close> blocks run it.\<close>

fun unlink_each_quietly :: "path \<Rightarrow> filesystem \<Rightarrow> uploaded_file list \<Rightarrow> filesystem" where
  "unlink_each_quietly dirname fs [] = fs"
| "unlink_each_quietly dirname fs (f # r) =
     unlink_each_quietly dirname
       (case unlinkSync fs (file_path_B dirname f) of Inl e \<Rightarrow> fs | Inr fs' \<Rightarrow> fs') r"

text \<open>
  An early return of \<^verbatim>\<open>POST /api/series\<close> after cleaning up; a throw of the cleanup lands in the
  handler's \<^verbatim>\<open>catch\<close>, which cleans up quietly and answers 500.
\<close>

definition reject_B ::
  "path \<Rightarrow> error \<Rightarrow> server_B \<Rightarrow> uploaded_file list \<Rightarrow> response \<times> server_B" where
  "reject_B dirname e st req_files =
     (case unlink_each dirname (files st) req_files of
        Inr fs' \<Rightarrow> (Error e, st\<lparr>files := fs'\<rparr>)
      | Inl fs' \<Rightarrow>
          (Error ServerError, st\<lparr>files := unlink_each_quietly dirname fs' req_files\<rparr>))"

text \<open>
  The body of \<^verbatim>\<open>episodesData.map((ep, idx) => ...)\<close> (lines 398 to 419); \<open>None\<close> where it throws
  for a missing file. Without a file, \<^verbatim>\<open>src: ep.src\<close> stores what the element has, or nothing.
\<close>

definition finalEpisode ::
  "nat \<Rightarrow> string \<Rightarrow> uploaded_file list \<Rightarrow> nat \<Rightarrow> episode_spec \<Rightarrow> episode option" where
  "finalEpisode nextId pseudo req_files idx ep =
     (if sp_hasFile ep then
        (case find (\<lambda>f. fieldname f = ''episode_'' @ sp_index ep) req_files of
           None \<Rightarrow> None
         | Some file \<Rightarrow>
             Some \<lparr>e_id = show_nat nextId @ ''-'' @ show_nat (idx + 1), e_title = sp_title ep,
                   e_type = None, e_src = Some (''/uploads/'' @ filename file),
                   e_pseudo = pseudo, e_fileName = None\<rparr>)
      else
        Some \<lparr>e_id = show_nat nextId @ ''-'' @ show_nat (idx + 1), e_title = sp_title ep,
              e_type = None, e_src = sp_src ep, e_pseudo = pseudo, e_fileName = None\<rparr>)"

definition finalEpisodes ::
  "nat \<Rightarrow> string \<Rightarrow> uploaded_file list \<Rightarrow> episode_spec list \<Rightarrow> episode list option" where
  "finalEpisodes nextId pseudo req_files episodesData =
     those (map (\<lambda>(idx, ep). finalEpisode nextId pseudo req_files idx ep)
                (enumerate 0 episodesData))"

text \<open>
  \<^verbatim>\<open>POST /api/series\<close> (lines 368 to 446): \<^verbatim>\<open>authMiddleware\<close>, then \<^verbatim>\<open>upload.any()\<close>, which stores
  every file part of the multipart request, then the handler. \<open>episodes\<close> is what
  \<^verbatim>\<open>JSON.parse(episodes || '[]')\<close> returns, \<open>None\<close> when it throws.
\<close>

definition post_series_B ::
  "path \<Rightarrow> server_B \<Rightarrow> payload option \<Rightarrow> uploaded_file list \<Rightarrow> string option \<Rightarrow>
   string option \<Rightarrow> string option \<Rightarrow> string option \<Rightarrow> episode_spec list option \<Rightarrow>
   response \<times> server_B" where
  "post_series_B dirname st0 auth req_files pseudo name desc image' episodes =
     (case auth of
        None \<Rightarrow> (Error Unauthorized, st0)
      | Some user \<Rightarrow>
          (let st = st0\<lparr>files := fold (\<lambda>f fs. multer_store_B dirname fs f) req_files
                                    (files st0)\<rparr> in
           if or_else pseudo [] = [] \<or> or_else name [] = [] then
             reject_B dirname PseudoAndNameRequired st req_files
           else
             (case episodes of
                None \<Rightarrow> reject_B dirname InvalidEpisodesFormat st req_files
              | Some episodesData \<Rightarrow>
                  if length episodesData = 0 then reject_B dirname EpisodeRequired st req_files
                  else
                    (case finalEpisodes (nextSeriesId st) (or_else pseudo []) req_files
                            episodesData of
                       None \<Rightarrow>
                         (Error ServerError,
                          st\<lparr>files := unlink_each_quietly dirname (files st) req_files\<rparr>)
                     | Some eps \<Rightarrow>
                         (let newSeries =
                                \<lparr>s_id = show_nat (nextSeriesId st), s_name = or_else name [],
                                 s_desc = or_else desc [], s_image = or_else image' [],
                                 s_pseudo = or_else pseudo [], s_episodes = eps\<rparr>
                          in (SeriesCreated newSeries,
                              st\<lparr>series_B := series_B st @ [newSeries],
                                 nextSeriesId := nextSeriesId st + 1\<rparr>))))))"

text \<open>
  The file deletion of the two delete handlers (lines 459 to 467 and 534 to 542), for a source
  \<open>src\<close> that is a string:
  \<^verbatim>\<open>if (src.startsWith('/uploads/')) { const filePath = path.join(__dirname, src);\<close>
  \<^verbatim>\<open>try { if (fs.existsSync(filePath)) fs.unlinkSync(filePath) } catch ... }\<close>.
\<close>

definition unlink_upload :: "path \<Rightarrow> filesystem \<Rightarrow> string \<Rightarrow> filesystem" where
  "unlink_upload dirname fs src =
     (if startsWith src ''/uploads/'' then
        (let filePath = path_join dirname src in
         if existsSync fs filePath then
           (case unlinkSync fs filePath of Inl e \<Rightarrow> fs | Inr fs' \<Rightarrow> fs')
         else fs)
      else fs)"

text \<open>
  \<^verbatim>\<open>seriesToDelete.episodes.forEach(ep => { if (ep.src.startsWith('/uploads/')) ... })\<close>
  (lines 457 to 469). The call \<^verbatim>\<open>ep.src.startsWith\<close> is outside the \<^verbatim>\<open>try\<close>: for an episode without
  a source it throws a \<^verbatim>\<open>TypeError\<close>, which ends the loop and the handler. \<open>Inr\<close> the file system
  when the loop has run through, \<open>Inl\<close> the file system at the throw: the files unlinked for
  the episodes before stay unlinked.
\<close>

fun unlink_episodes :: "path \<Rightarrow> filesystem \<Rightarrow> episode list \<Rightarrow> filesystem + filesystem" where
  "unlink_episodes dirname fs [] = Inr fs"
| "unlink_episodes dirname fs (ep # eps) =
     (case e_src ep of
        None \<Rightarrow> Inl fs
      | Some src \<Rightarrow> unlink_episodes dirname (unlink_upload dirname fs src) eps)"

text \<open>
  \<^verbatim>\<open>DELETE /api/series/:id\<close> (lines 449 to 473): \<^verbatim>\<open>authMiddleware\<close>, \<^verbatim>\<open>adminMiddleware\<close>
  (lines 286 to 291), then the handler. The handler has no \<^verbatim>\<open>try\<close> of its own: when the loop
  throws, Express answers 500 and \<^verbatim>\<open>series.splice(idx, 1)\<close> is not reached.
\<close>

definition delete_series_B ::
  "path \<Rightarrow> server_B \<Rightarrow> payload option \<Rightarrow> string \<Rightarrow> response \<times> server_B" where
  "delete_series_B dirname st auth id' =
     (case auth of
        None \<Rightarrow> (Error Unauthorized, st)
      | Some user \<Rightarrow>
          if \<not> p_isAdmin user then (Error Forbidden, st)
          else
            (case find (\<lambda>s. s_id s = id') (series_B st) of
               None \<Rightarrow> (Error SeriesNotFound, st)
             | Some seriesToDelete \<Rightarrow>
                 (case unlink_episodes dirname (files st) (s_episodes seriesToDelete) of
                    Inl fs' \<Rightarrow> (Error ServerError, st\<lparr>files := fs'\<rparr>)
                  | Inr fs' \<Rightarrow>
                      (Success,
                       st\<lparr>files := fs',
                          series_B := remove_first (\<lambda>s. s_id s = id') (series_B st)\<rparr>))))"

text \<open>
  \<^verbatim>\<open>POST /api/series/:id/episodes\<close> (lines 476 to 516): \<^verbatim>\<open>authMiddleware\<close>, then
  \<^verbatim>\<open>upload.single('video')\<close>, then the handler; \<open>file\<close> is \<^verbatim>\<open>req.file\<close>.
\<close>

definition post_episode_B ::
  "path \<Rightarrow> server_B \<Rightarrow> payload option \<Rightarrow> string \<Rightarrow> uploaded_file option \<Rightarrow> string option \<Rightarrow>
   string option \<Rightarrow> string option \<Rightarrow> response \<times> server_B" where
  "post_episode_B dirname st0 auth id' file title url pseudo =
     (case auth of
        None \<Rightarrow> (Error Unauthorized, st0)
      | Some user \<Rightarrow>
          (let st = st0\<lparr>files := (case file of None \<Rightarrow> files st0
                                   | Some f \<Rightarrow> multer_store_B dirname (files st0) f)\<rparr> in
           case find (\<lambda>s. s_id s = id') (series_B st) of
             None \<Rightarrow>
               (case file of
                  None \<Rightarrow> (Error SeriesNotFound, st)
                | Some f \<Rightarrow>
                    (case unlinkSync (files st) (file_path_B dirname f) of
                       Inr fs' \<Rightarrow> (Error SeriesNotFound, st\<lparr>files := fs'\<rparr>)
                     | Inl e \<Rightarrow>
                         (Error ServerError,
                          st\<lparr>files := unlink_each_quietly dirname (files st) [f]\<rparr>)))
           | Some seriesObj \<Rightarrow>
               (let epNumber = length (s_episodes seriesObj) + 1 in
                case (case file of
                        Some f \<Rightarrow> Some (''/uploads/'' @ filename f)
                      | None \<Rightarrow> if or_else url [] \<noteq> [] then Some (or_else url []) else None) of
                  None \<Rightarrow> (Error FileOrUrlRequired, st)
                | Some src \<Rightarrow>
                    (let newEpisode =
                           \<lparr>e_id = s_id seriesObj @ ''-'' @ show_nat epNumber,
                            e_title = Some (or_else title (episode_title epNumber)),
                            e_type = None, e_src = Some src,
                            e_pseudo = or_else pseudo (p_username user),
                            e_fileName = None\<rparr>
                     in (EpisodeCreated newEpisode,
                         st\<lparr>series_B :=
                              update_first (\<lambda>s. s_id s = id')
                                (\<lambda>x. x\<lparr>s_episodes := s_episodes x @ [newEpisode]\<rparr>)
                                (series_B st)\<rparr>)))))"

text \<open>
  \<^verbatim>\<open>DELETE /api/series/:seriesId/episodes/:episodeId\<close> (lines 519 to 547). Here too
  \<^verbatim>\<open>episode.src.startsWith\<close> (line 533) is outside the \<^verbatim>\<open>try\<close>: for an episode without a source the
  handler throws before it touches anything, and Express answers 500.
\<close>

definition delete_episode_B ::
  "path \<Rightarrow> server_B \<Rightarrow> payload option \<Rightarrow> string \<Rightarrow> string \<Rightarrow> response \<times> server_B" where
  "delete_episode_B dirname st auth seriesId episodeId =
     (case auth of
        None \<Rightarrow> (Error Unauthorized, st)
      | Some user \<Rightarrow>
          if \<not> p_isAdmin user then (Error Forbidden, st)
          else
            (case find (\<lambda>s. s_id s = seriesId) (series_B st) of
               None \<Rightarrow> (Error SeriesNotFound, st)
             | Some seriesObj \<Rightarrow>
                 (case find (\<lambda>ep. e_id ep = episodeId) (s_episodes seriesObj) of
                    None \<Rightarrow> (Error EpisodeNotFound, st)
                  | Some episode \<Rightarrow>
                      (case e_src episode of
                         None \<Rightarrow> (Error ServerError, st)
                       | Some src \<Rightarrow>
                           (Success,
                            st\<lparr>files := unlink_upload dirname (files st) src,
                               series_B :=
                                 update_first (\<lambda>s. s_id s = seriesId)
                                   (\<lambda>x. x\<lparr>s_episodes :=
                                             remove_first (\<lambda>ep. e_id ep = episodeId)
                                               (s_episodes x)\<rparr>)
                                   (series_B st)\<rparr>)))))"

text \<open>
  The runs of the in-memory server: \<open>steps_B dirname st st'\<close> when some sequence of requests to
  the four routes that change the state takes it from \<open>st\<close> to \<open>st'\<close>. It starts with no series
  and the counter at 1, whatever the disk holds; \<open>reachable_B\<close> are the states a run from there
  ends in.
\<close>

inductive steps_B :: "path \<Rightarrow> server_B \<Rightarrow> server_B \<Rightarrow> bool"
  for dirname :: path and st :: server_B
where
  no_request: "steps_B dirname st st"
| post_series:
    "steps_B dirname st st1 \<Longrightarrow>
     steps_B dirname st
       (snd (post_series_B dirname st1 auth req_files pseudo name desc image' episodes))"
| delete_series:
    "steps_B dirname st st1 \<Longrightarrow> steps_B dirname st (snd (delete_series_B dirname st1 auth id'))"
| post_episode:
    "steps_B dirname st st1 \<Longrightarrow>
     steps_B dirname st (snd (post_episode_B dirname st1 auth id' file title url pseudo))"
| delete_episode:
    "steps_B dirname st st1 \<Longrightarrow>
     steps_B dirname st (snd (delete_episode_B dirname st1 auth seriesId episodeId))"

definition reachable_B :: "path \<Rightarrow> server_B \<Rightarrow> bool" where
  "reachable_B dirname st = (\<exists>fs. steps_B dirname (init_B fs) st)"
section \<open>Example data\<close>

text \<open>\<^verbatim>\<open>String.prototype.toLowerCase\<close> on ASCII text, for the examples.\<close>

definition ascii_lower :: "string \<Rightarrow> string" where
  "ascii_lower x =
     map (\<lambda>c. if 65 \<le> (of_char c :: nat) \<and> (of_char c :: nat) \<le> 90
              then char_of ((of_char c :: nat) + 32) else c) x"

definition bob :: payload where
  "bob = \<lparr>p_username = ''bob'', p_isAdmin = False\<rparr>"

definition root :: payload where
  "root = \<lparr>p_username = ''AnimeForever-admin'', p_isAdmin = True\<rparr>"

definition ep1 :: episode where
  "ep1 = \<lparr>e_id = ''1-1'', e_title = Some ''Pilot'', e_type = None,
          e_src = Some ''/uploads/video-1-2.mp4'', e_pseudo = ''bob'', e_fileName = None\<rparr>"

definition ep2 :: episode where
  "ep2 = \<lparr>e_id = ''1-2'', e_title = Some ''Second'', e_type = None,
          e_src = Some ''https://cdn.example/2.mp4'', e_pseudo = ''bob'', e_fileName = None\<rparr>"

definition naruto :: series where
  "naruto = \<lparr>s_id = ''1'', s_name = ''Naruto'', s_desc = ''desc'',
             s_image = ''/uploads/cover.png'', s_pseudo = ''bob'', s_episodes = [ep1, ep2]\<rparr>"

text \<open>The disk of the file-based server, written from \<^verbatim>\<open>__dirname\<close>.\<close>

definition disk :: filesystem where
  "disk = [''/uploads/video-1-2.mp4'' \<mapsto> ''video'', ''/uploads/cover.png'' \<mapsto> ''png'']"

definition disk_A :: filesystem where
  "disk_A = save_series disk [naruto]"

text \<open>
  The in-memory server of the examples runs in \<^verbatim>\<open>/srv/app\<close>; beside the uploads its disk holds a
  file of the application itself.
\<close>

definition app_dir :: path where
  "app_dir = ''/srv/app''"

definition cover_disk :: filesystem where
  "cover_disk = [''/srv/app/uploads/cover.png'' \<mapsto> ''png'', ''/srv/app/keep.txt'' \<mapsto> ''kept'']"

definition disk_B :: filesystem where
  "disk_B = [''/srv/app/uploads/cover.png'' \<mapsto> ''png'', ''/srv/app/keep.txt'' \<mapsto> ''kept'',
             ''/srv/app/uploads/video-1-2.mp4'' \<mapsto> ''video'']"

definition memory_B :: server_B where
  "memory_B = \<lparr>series_B = [naruto], nextSeriesId = 2, files = disk_B\<rparr>"

definition clip :: uploaded_file where
  "clip = \<lparr>fieldname = ''file'', originalname = ''clip.mp4'', filename = ''7-8.mp4'',
           content = ''bytes''\<rparr>"

definition clip_B :: uploaded_file where
  "clip_B = \<lparr>fieldname = ''video'', originalname = ''clip.mp4'', filename = ''video-7-8.mp4'',
             content = ''bytes''\<rparr>"

definition uploaded_ep :: episode where
  "uploaded_ep = \<lparr>e_id = time_random_id 5 6, e_title = Some (episode_title 3),
      e_type = Some ''url'', e_src = Some ''/uploads/7-8.mp4'', e_pseudo = ''bob'',
      e_fileName = Some ''clip.mp4''\<rparr>"

definition linked_ep :: episode where
  "linked_ep = \<lparr>e_id = time_random_id 5 6, e_title = Some ''Third'', e_type = Some ''url'',
      e_src = Some ''https://cdn.example/3.mp4'', e_pseudo = ''bob'', e_fileName = None\<rparr>"

definition uploaded_ep_B :: episode where
  "uploaded_ep_B = \<lparr>e_id = ''1-'' @ show_nat 3, e_title = Some (episode_title 3), e_type = None,
      e_src = Some ''/uploads/video-7-8.mp4'', e_pseudo = ''bob'', e_fileName = None\<rparr>"

definition linked_ep_B :: episode where
  "linked_ep_B = \<lparr>e_id = ''1-'' @ show_nat 3, e_title = Some ''Third'', e_type = None,
      e_src = Some ''https://cdn.example/3.mp4'', e_pseudo = ''bob'', e_fileName = None\<rparr>"

definition bleach :: series where
  "bleach = \<lparr>s_id = time_random_id 5 6, s_name = ''Bleach'', s_desc = [], s_image = [],
             s_pseudo = ''bob'', s_episodes = []\<rparr>"

definition corrupt_disk :: filesystem where
  "corrupt_disk = disk(SERIES_FILE \<mapsto> ''[{'')"

definition narutoA :: series where
  "narutoA = \<lparr>s_id = time_random_id 5 6, s_name = ''Naruto'', s_desc = [], s_image = [],
              s_pseudo = ''bob'', s_episodes = []\<rparr>"

definition fresh_disk :: filesystem where
  "fresh_disk = save_series disk []"

definition pilot_spec :: episode_spec where
  "pilot_spec = \<lparr>sp_title = Some ''Pilot'', sp_hasFile = True, sp_index = ''0'', sp_src = None\<rparr>"

definition link_spec :: episode_spec where
  "link_spec = \<lparr>sp_title = Some ''Second'', sp_hasFile = False, sp_index = ''1'',
                 sp_src = Some ''https://cdn.example/2.mp4''\<rparr>"

definition pilot_file :: uploaded_file where
  "pilot_file = \<lparr>fieldname = ''episode_0'', originalname = ''pilot.mp4'',
                  filename = ''video-1-2.mp4'', content = ''video''\<rparr>"

definition naruto_B :: "string \<Rightarrow> string \<Rightarrow> series" where
  "naruto_B i n = \<lparr>s_id = i, s_name = n, s_desc = [], s_image = [], s_pseudo = ''bob'',
      s_episodes =
        [\<lparr>e_id = i @ ''-1'', e_title = Some ''Pilot'', e_type = None,
          e_src = Some ''/uploads/video-1-2.mp4'', e_pseudo = ''bob'', e_fileName = None\<rparr>,
         \<lparr>e_id = i @ ''-2'', e_title = Some ''Second'', e_type = None,
          e_src = Some ''https://cdn.example/2.mp4'', e_pseudo = ''bob'', e_fileName = None\<rparr>]\<rparr>"

text \<open>
  Two specs without a file: one whose source starts with \<^verbatim>\<open>/uploads/\<close> and leaves the upload
  directory again, and one that has no source at all. With the uploaded pilot before them they
  make the episodes of two more series.
\<close>

definition escaping_spec :: episode_spec where
  "escaping_spec = \<lparr>sp_title = Some ''Second'', sp_hasFile = False, sp_index = ''1'',
                     sp_src = Some ''/uploads/../keep.txt''\<rparr>"

definition bare_spec :: episode_spec where
  "bare_spec = \<lparr>sp_title = Some ''Second'', sp_hasFile = False, sp_index = ''1'',
                 sp_src = None\<rparr>"

definition escaping_ep :: episode where
  "escaping_ep = \<lparr>e_id = ''1-2'', e_title = Some ''Second'', e_type = None,
                   e_src = Some ''/uploads/../keep.txt'', e_pseudo = ''bob'', e_fileName = None\<rparr>"

definition bare_ep :: episode where
  "bare_ep = \<lparr>e_id = ''1-2'', e_title = Some ''Second'', e_type = None, e_src = None,
               e_pseudo = ''bob'', e_fileName = None\<rparr>"

definition escaping_series :: series where
  "escaping_series = \<lparr>s_id = ''1'', s_name = ''Escape'', s_desc = [], s_image = [],
                       s_pseudo = ''bob'', s_episodes = [ep1, escaping_ep]\<rparr>"

definition bare_series :: series where
  "bare_series = \<lparr>s_id = ''1'', s_name = ''Bare'', s_desc = [], s_image = [],
                   s_pseudo = ''bob'', s_episodes = [ep1, bare_ep]\<rparr>"

definition escaping_B :: server_B where
  "escaping_B = \<lparr>series_B = [escaping_series], nextSeriesId = 2, files = disk_B\<rparr>"

definition bare_B :: server_B where
  "bare_B = \<lparr>series_B = [bare_series], nextSeriesId = 2, files = disk_B\<rparr>"
section \<open>Auxiliary notions of the proofs\<close>

text \<open>What may follow a printed number so that it reads back as the same number.\<close>

definition no_digit_start :: "string \<Rightarrow> bool" where
  "no_digit_start cs = (case cs of [] \<Rightarrow> True | c # r \<Rightarrow> \<not> is_digit c)"

text \<open>The recursion depth the parser needs for a printed value.\<close>

fun depth_value :: "json \<Rightarrow> nat"
  and depth_items :: "json list \<Rightarrow> nat"
  and depth_members :: "(string \<times> json) list \<Rightarrow> nat"
where
  "depth_value JNull = 1"
| "depth_value (JBool b) = 1"
| "depth_value (JNum n) = 1"
| "depth_value (JStr s) = 1"
| "depth_value (JArr vs) = Suc (depth_items vs)"
| "depth_value (JObj ms) = Suc (depth_members ms)"
| "depth_items [] = 0"
| "depth_items (v # vs) = Suc (depth_value v + depth_items vs)"
| "depth_members [] = 0"
| "depth_members ((k, v) # ms) = Suc (depth_value v + depth_members ms)"

text \<open>The characters a printed value can start with.\<close>

definition value_start :: "char \<Rightarrow> bool" where
  "value_start c = (c \<in> {CHR ''['', CHR ''{'', CHR 0x22, CHR ''-'', CHR ''n'', CHR ''t'', CHR ''f''} \<or> is_digit c)"

text \<open>
  What \<^verbatim>\<open>normalizeString\<close> does with one segment, the stack of kept segments as it can be (no
  empty segment, no \<^verbatim>\<open>.\<close>, and \<^verbatim>\<open>..\<close> only at the bottom of the stack of a relative path), and the
  text \<^verbatim>\<open>path.normalize\<close> makes of the kept segments.
\<close>

definition push_segment :: "bool \<Rightarrow> string \<Rightarrow> string list \<Rightarrow> string list" where
  "push_segment ab s res =
     (if s = [] \<or> s = ''.'' then res
      else if s = ''..'' then
        (case res of
           [] \<Rightarrow> if ab then [''..''] else []
         | t # ts \<Rightarrow> if t = ''..'' then (if ab then ''..'' # res else res) else ts)
      else s # res)"

definition ordinary :: "string \<Rightarrow> bool" where
  "ordinary s = (s \<noteq> [] \<and> s \<noteq> ''.'' \<and> s \<noteq> ''..'' \<and> CHR ''/'' \<notin> set s)"

fun normal_stack :: "bool \<Rightarrow> string list \<Rightarrow> bool" where
  "normal_stack ab [] = True"
| "normal_stack ab (t # ts) =
     ((t = ''..'' \<and> ab \<and> (\<forall>s \<in> set ts. s = ''..'')) \<or> (ordinary t \<and> normal_stack ab ts))"

definition render :: "bool \<Rightarrow> bool \<Rightarrow> string list \<Rightarrow> path" where
  "render isAbsolute trailingSeparator segs =
     (let p' = join_with ''/'' segs
      in if p' = [] then
           (if isAbsolute then ''/'' else if trailingSeparator then ''./'' else ''.'')
         else (if isAbsolute then ''/'' else []) @ p' @ (if trailingSeparator then ''/'' else []))"

text \<open>
  The paths the delete handlers of the in-memory server unlink for a list of episodes: for each
  source that starts with \<^verbatim>\<open>/uploads/\<close>, what \<^verbatim>\<open>path.join(__dirname, src)\<close> gives.
\<close>

definition unlink_targets :: "path \<Rightarrow> episode list \<Rightarrow> path set" where
  "unlink_targets dirname eps =
     set (map (path_join dirname)
            (filter (\<lambda>x. startsWith x ''/uploads/'') (List.map_filter e_src eps)))"

text \<open>
  The episodes the loop of \<^verbatim>\<open>DELETE /api/series/:id\<close> gets through: those before the first one
  without a source.
\<close>

definition with_src :: "episode list \<Rightarrow> episode list" where
  "with_src eps = takeWhile (\<lambda>ep. e_src ep \<noteq> None) eps"

text \<open>Every id of the collection is the decimal of a number below the counter, and no two are equal.\<close>

definition counter_ids :: "nat \<Rightarrow> series list \<Rightarrow> bool" where
  "counter_ids n c =
     (list_all (\<lambda>s. s_id s \<in> set (map show_nat [0..<n])) c \<and> distinct (map s_id c))"

section \<open>Printing and parsing\<close>

subsection \<open>Numbers\<close>

lemma is_digit_char_of: "d < 10 \<Longrightarrow> is_digit (char_of (48 + (d::nat)))"
  by (simp add: is_digit_def)

lemma char_of_zero: "d < 10 \<Longrightarrow> char_of (48 + (d::nat)) = CHR ''0'' \<Longrightarrow> d = 0"
  by (drule arg_cong [where f = "of_char :: char \<Rightarrow> nat"]) simp

lemma parse_digits_all:
  "list_all is_digit ds \<Longrightarrow> no_digit_start r \<Longrightarrow>
   parse_digits acc (ds @ r) = (foldl (\<lambda>a c. a * 10 + (of_char c - 48)) acc ds, r)"
proof (induction ds arbitrary: acc)
  case Nil
  then show ?case by (cases r) (simp_all add: no_digit_start_def)
next
  case (Cons d ds)
  then show ?case by simp
qed

lemma show_nat_digits: "list_all is_digit (show_nat n)"
proof (induction n rule: show_nat.induct)
  case (1 n)
  show ?case
  proof (cases "n < 10")
    case True
    then show ?thesis by (subst show_nat.simps) (simp add: is_digit_char_of)
  next
    case False
    with 1 show ?thesis by (subst show_nat.simps) (simp add: is_digit_char_of)
  qed
qed

lemma show_nat_value: "foldl (\<lambda>a c. a * 10 + (of_char c - 48)) 0 (show_nat n) = n"
proof (induction n rule: show_nat.induct)
  case (1 n)
  show ?case
  proof (cases "n < 10")
    case True
    then show ?thesis by (subst show_nat.simps) simp
  next
    case False
    with 1 show ?thesis by (subst show_nat.simps) simp
  qed
qed

lemma show_nat_Cons: "\<exists>c r. show_nat n = c # r \<and> is_digit c \<and> (c = CHR ''0'' \<longrightarrow> n = 0 \<and> r = [])"
proof (induction n rule: show_nat.induct)
  case (1 n)
  show ?case
  proof (cases "n < 10")
    case True
    then show ?thesis by (subst show_nat.simps) (auto simp add: is_digit_char_of dest: char_of_zero)
  next
    case False
    with 1 obtain c r where h: "show_nat (n div 10) = c # r" "is_digit c" "c = CHR ''0'' \<longrightarrow> n div 10 = 0 \<and> r = []"
      by blast
    from False have "n div 10 \<noteq> 0" by simp
    with h False show ?thesis by (subst show_nat.simps) auto
  qed
qed

lemma parse_unsigned_show_nat:
  assumes "no_digit_start r"
  shows "parse_unsigned (show_nat n @ r) = Some (n, r)"
proof -
  obtain c t where h: "show_nat n = c # t" "is_digit c" "c = CHR ''0'' \<longrightarrow> n = 0 \<and> t = []"
    using show_nat_Cons by blast
  show ?thesis
  proof (cases "c = CHR ''0''")
    case True
    with h show ?thesis by (simp add: parse_unsigned_def)
  next
    case False
    have "parse_digits 0 (show_nat n @ r) = (n, r)"
      using parse_digits_all [OF show_nat_digits assms, of 0 n] by (simp add: show_nat_value)
    with h False show ?thesis by (simp add: parse_unsigned_def)
  qed
qed

lemma is_digit_minus: "\<not> is_digit (CHR ''-'')"
  by (simp add: is_digit_def)

lemma parse_number_show_int:
  assumes "no_digit_start r"
  shows "parse_number (show_int i @ r) = Some (i, r)"
proof (cases "i < 0")
  case True
  then show ?thesis
    by (simp add: parse_number_def show_int_def parse_unsigned_show_nat [OF assms])
next
  case False
  obtain c t where h: "show_nat (nat i) = c # t" "is_digit c"
    using show_nat_Cons by blast
  then have "c \<noteq> CHR ''-''" using is_digit_minus by auto
  with False h parse_unsigned_show_nat [OF assms, of "nat i"] show ?thesis
    by (simp add: parse_number_def show_int_def)
qed

lemma show_int_Cons: "\<exists>c t. show_int i = c # t \<and> (c = CHR ''-'' \<or> is_digit c)"
  using show_nat_Cons [of "nat i"] by (auto simp add: show_int_def)

subsection \<open>String literals\<close>

lemma hex_val_hex_digit: "k < 16 \<Longrightarrow> hex_val (hex_digit k) = Some k"
proof -
  assume "k < 16"
  then have "k = 0 \<or> k = 1 \<or> k = 2 \<or> k = 3 \<or> k = 4 \<or> k = 5 \<or> k = 6 \<or> k = 7 \<or> k = 8
      \<or> k = 9 \<or> k = 10 \<or> k = 11 \<or> k = 12 \<or> k = 13 \<or> k = 14 \<or> k = 15" by presburger
  then show ?thesis
    by (auto simp add: hex_val_def hex_digit_def)
qed

lemma hex4_control:
  assumes "(of_char c :: nat) < 32"
  shows "hex4 (CHR ''0'') (CHR ''0'') (hex_digit (of_char c div 16)) (hex_digit (of_char c mod 16)) = Some c"
proof -
  let ?n = "of_char c :: nat"
  have a: "hex_val (hex_digit (?n div 16)) = Some (?n div 16)"
    using assms by (intro hex_val_hex_digit) simp
  have b: "hex_val (hex_digit (?n mod 16)) = Some (?n mod 16)"
    by (intro hex_val_hex_digit) simp
  have z: "hex_val (CHR ''0'') = Some 0" by (simp add: hex_val_def)
  have "?n div 16 * 16 + ?n mod 16 = ?n" by simp
  with assms show ?thesis by (simp add: hex4_def a b z)
qed

lemma parse_chars_quote_char:
  assumes "parse_chars t = Some (s, r)"
  shows "parse_chars (quote_char c @ t) = Some (c # s, r)"
proof -
  consider "c = CHR 0x22" | "c = CHR 0x5C" | "c = CHR 0x08" | "c = CHR 0x0C" | "c = CHR 0x0A"
    | "c = CHR 0x0D" | "c = CHR 0x09"
    | "c \<notin> {CHR 0x22, CHR 0x5C, CHR 0x08, CHR 0x0C, CHR 0x0A, CHR 0x0D, CHR 0x09}" "(of_char c :: nat) < 32"
    | "c \<notin> {CHR 0x22, CHR 0x5C, CHR 0x08, CHR 0x0C, CHR 0x0A, CHR 0x0D, CHR 0x09}" "\<not> (of_char c :: nat) < 32"
    by blast
  then show ?thesis
  proof cases
    case 8
    then show ?thesis using assms hex4_control [OF 8(2)]
      by (simp add: quote_char_def)
  next
    case 9
    then show ?thesis using assms by (simp add: quote_char_def)
  qed (simp_all add: quote_char_def unescape_def assms)
qed

lemma parse_chars_quote: "parse_chars (concat (map quote_char s) @ CHR 0x22 # r) = Some (s, r)"
proof (induction s)
  case Nil
  show ?case by simp
next
  case (Cons c s)
  from parse_chars_quote_char [OF Cons.IH, of c] show ?case by simp
qed

lemma parse_chars_quoted: "parse_chars (tl (quote s) @ r) = Some (s, r)"
  using parse_chars_quote [of s r] by (simp add: quote_def)

subsection \<open>Values\<close>

lemma value_start_facts:
  "value_start c \<Longrightarrow> \<not> is_ws c \<and> c \<noteq> CHR '']'' \<and> c \<noteq> CHR ''}''"
  by (auto simp add: value_start_def is_ws_def is_digit_def)

lemma skip_ws_nonws: "\<not> is_ws c \<Longrightarrow> skip_ws (c # r) = c # r"
  by (simp add: skip_ws_def)

lemma skip_ws_newline_indent: "skip_ws (newline_indent j @ cs) = skip_ws cs"
proof -
  have "\<forall>c \<in> set (newline_indent j). is_ws c"
    by (auto simp add: newline_indent_def is_ws_def)
  then show ?thesis
    by (simp add: skip_ws_def dropWhile_append)
qed

lemma parse_value_newline_indent: "parse_value n (newline_indent j @ cs) = parse_value n cs"
  by (cases n) (simp_all add: skip_ws_newline_indent)

lemma parse_members_newline_indent: "parse_members n (newline_indent j @ cs) = parse_members n cs"
  by (cases n) (simp_all add: skip_ws_newline_indent)

lemma parse_items_newline_indent: "parse_items n (newline_indent j @ cs) = parse_items n cs"
  by (cases n) (simp_all add: parse_value_newline_indent)

lemma stringify_at_start: "\<exists>c t. stringify_at i v = c # t \<and> value_start c"
proof (cases v)
  case (JNum k)
  then show ?thesis using show_int_Cons [of k] by (auto simp add: value_start_def)
next
  case (JArr vs)
  then show ?thesis by (cases vs) (simp_all add: value_start_def)
next
  case (JObj ms)
  then show ?thesis by (cases ms) (simp_all add: value_start_def)
qed (simp_all add: value_start_def quote_def)

lemma stringify_items_start: "vs \<noteq> [] \<Longrightarrow> \<exists>c t. stringify_items i vs = c # t \<and> value_start c"
proof (cases vs)
  case Nil
  assume "vs \<noteq> []"
  with Nil show ?thesis by simp
next
  case (Cons v ws)
  obtain c t where "stringify_at i v = c # t" "value_start c" using stringify_at_start by blast
  with Cons show ?thesis by (cases ws) simp_all
qed

lemma parse_value_atom:
  "strip_prefix ''null'' (''null'' @ r) = Some r"
  "strip_prefix ''true'' (''true'' @ r) = Some r"
  "strip_prefix ''false'' (''false'' @ r) = Some r"
  by (simp_all add: strip_prefix_def)

lemma parse_value_JNum:
  assumes "no_digit_start r"
  shows "parse_value (Suc n) (show_int k @ r) = Some (JNum k, r)"
proof -
  obtain c t where h: "show_int k = c # t" "c = CHR ''-'' \<or> is_digit c"
    using show_int_Cons by blast
  then have nws: "\<not> is_ws c" "c \<noteq> CHR ''[''" "c \<noteq> CHR ''{''" "c \<noteq> CHR 0x22"
    by (auto simp add: is_ws_def is_digit_def)
  have e: "show_int k @ r = c # (t @ r)" using h by simp
  have "parse_number (c # (t @ r)) = Some (k, r)"
    using parse_number_show_int [OF assms, of k] h by simp
  with h(2) nws show ?thesis
    unfolding e by (simp add: skip_ws_nonws)
qed

lemma parse_value_JStr: "parse_value (Suc n) (quote s @ r) = Some (JStr s, r)"
proof -
  have e: "quote s @ r = CHR 0x22 # (concat (map quote_char s) @ CHR 0x22 # r)"
    by (simp add: quote_def)
  show ?thesis
    unfolding e by (simp add: skip_ws_nonws is_ws_def parse_chars_quote)
qed

lemma roundtrip_aux:
  "\<And>n r. depth_value v \<le> n \<Longrightarrow> no_digit_start r \<Longrightarrow>
     parse_value n (stringify_at i v @ r) = Some (v, r)"
  "\<And>n r j. vs \<noteq> [] \<Longrightarrow> depth_items vs \<le> n \<Longrightarrow>
     parse_items n (stringify_items i vs @ newline_indent j @ CHR '']'' # r) = Some (vs, r)"
  "\<And>n r j. ms \<noteq> [] \<Longrightarrow> depth_members ms \<le> n \<Longrightarrow>
     parse_members n (stringify_members i ms @ newline_indent j @ CHR ''}'' # r) = Some (ms, r)"
proof (induction i v and i vs and i ms rule: stringify_at_stringify_items_stringify_members.induct)
  case (1 i)
  then obtain m where "n = Suc m" by (cases n) auto
  then show ?case by (simp add: skip_ws_nonws is_ws_def is_digit_def parse_value_atom [simplified])
next
  case (2 i b)
  then obtain m where "n = Suc m" by (cases n) auto
  then show ?case by (simp add: skip_ws_nonws is_ws_def is_digit_def strip_prefix_def)
next
  case (3 i k)
  then obtain m where "n = Suc m" by (cases n) auto
  with 3 show ?case by (simp add: parse_value_JNum del: parse_value.simps)
next
  case (4 i s)
  then obtain m where "n = Suc m" by (cases n) auto
  then show ?case by (simp add: parse_value_JStr del: parse_value.simps)
next
  case (5 i)
  then obtain m where "n = Suc m" by (cases n) auto
  then show ?case by (simp add: skip_ws_nonws is_ws_def)
next
  case (6 i v vs)
  from 6(2) obtain m where n: "n = Suc m" and m: "depth_items (v # vs) \<le> m" by (cases n) auto
  obtain c t where st: "stringify_items (i + 2) (v # vs) = c # t" "value_start c"
    using stringify_items_start [of "v # vs"] by blast
  have ih: "parse_items m (stringify_items (i + 2) (v # vs) @ newline_indent i @ CHR '']'' # r) = Some (v # vs, r)"
    using 6(1) [of m i r] m by simp
  have sk: "skip_ws (newline_indent (i + 2) @ stringify_items (i + 2) (v # vs) @ newline_indent i @ CHR '']'' # r)
            = c # t @ newline_indent i @ CHR '']'' # r"
    using st value_start_facts [of c] by (simp add: skip_ws_newline_indent skip_ws_nonws)
  show ?case
    using ih st value_start_facts [of c] sk
    by (simp add: n skip_ws_nonws is_ws_def)
next
  case (7 i)
  then obtain m where "n = Suc m" by (cases n) auto
  then show ?case by (simp add: skip_ws_nonws is_ws_def)
next
  case (8 i kv ms)
  from 8(2) obtain m where n: "n = Suc m" and m: "depth_members (kv # ms) \<le> m" by (cases n) auto
  obtain k v where kv: "kv = (k, v)" by (cases kv)
  obtain t where st: "stringify_members (i + 2) (kv # ms) = CHR 0x22 # t"
    by (cases ms) (auto simp add: kv quote_def)
  have ih: "parse_members m (stringify_members (i + 2) (kv # ms) @ newline_indent i @ CHR ''}'' # r) = Some (kv # ms, r)"
    using 8(1) [of m i r] m by simp
  have sk: "skip_ws (newline_indent (i + 2) @ stringify_members (i + 2) (kv # ms) @ newline_indent i @ CHR ''}'' # r)
            = CHR 0x22 # t @ newline_indent i @ CHR ''}'' # r"
    using st by (simp add: skip_ws_newline_indent skip_ws_nonws is_ws_def)
  show ?case
    using ih st sk
    by (simp add: n skip_ws_nonws is_ws_def)
next
  case (9 i)
  then show ?case by simp
next
  case (10 i v)
  from 10(3) obtain m where n: "n = Suc m" and m: "depth_value v \<le> m" by (cases n) auto
  have nd: "no_digit_start (newline_indent j @ CHR '']'' # r)"
    by (simp add: no_digit_start_def newline_indent_def is_digit_def)
  have "parse_value m (stringify_at i v @ newline_indent j @ CHR '']'' # r)
        = Some (v, newline_indent j @ CHR '']'' # r)"
    using 10(1) [OF m nd] .
  then show ?case
    by (simp add: n skip_ws_newline_indent skip_ws_nonws is_ws_def)
next
  case (11 i v w vs)
  from 11(4) obtain m where n: "n = Suc m" and m1: "depth_value v \<le> m"
    and m2: "depth_items (w # vs) \<le> m" by (cases n) auto
  let ?rest = "newline_indent i @ stringify_items i (w # vs) @ newline_indent j @ CHR '']'' # r"
  have nd: "no_digit_start (CHR '','' # ?rest)"
    by (simp add: no_digit_start_def is_digit_def)
  have a: "parse_value m (stringify_at i v @ CHR '','' # ?rest) = Some (v, CHR '','' # ?rest)"
    using 11(1) [OF m1 nd] .
  have b: "parse_items m (stringify_items i (w # vs) @ newline_indent j @ CHR '']'' # r) = Some (w # vs, r)"
    using 11(2) [OF _ m2] by simp
  show ?case
    using a b by (simp add: n skip_ws_nonws is_ws_def parse_items_newline_indent)
next
  case (12 i)
  then show ?case by simp
next
  case (13 i k v)
  from 13(3) obtain m where n: "n = Suc m" and m: "depth_value v \<le> m" by (cases n) auto
  have nd: "no_digit_start (newline_indent j @ CHR ''}'' # r)"
    by (simp add: no_digit_start_def newline_indent_def is_digit_def)
  have a: "parse_value m (stringify_at i v @ newline_indent j @ CHR ''}'' # r)
        = Some (v, newline_indent j @ CHR ''}'' # r)"
    using 13(1) [OF m nd] .
  obtain c t where st: "stringify_at i v = c # t" "value_start c"
    using stringify_at_start by blast
  have q: "quote k @ CHR '':'' # CHR '' '' # stringify_at i v @ newline_indent j @ CHR ''}'' # r
      = CHR 0x22 # (tl (quote k) @ CHR '':'' # CHR '' '' # stringify_at i v @ newline_indent j @ CHR ''}'' # r)"
    by (simp add: quote_def)
  have ws: "parse_value m (CHR '' '' # stringify_at i v @ newline_indent j @ CHR ''}'' # r)
      = parse_value m (stringify_at i v @ newline_indent j @ CHR ''}'' # r)"
    by (cases m) (simp_all add: skip_ws_def is_ws_def)
  show ?case
    using a by (simp add: n q ws parse_chars_quoted skip_ws_newline_indent skip_ws_nonws is_ws_def)
next
  case (14 i k v m' ms)
  from 14(4) obtain m where n: "n = Suc m" and m1: "depth_value v \<le> m"
    and m2: "depth_members (m' # ms) \<le> m" by (cases n) auto
  let ?rest = "newline_indent i @ stringify_members i (m' # ms) @ newline_indent j @ CHR ''}'' # r"
  have nd: "no_digit_start (CHR '','' # ?rest)"
    by (simp add: no_digit_start_def is_digit_def)
  have a: "parse_value m (stringify_at i v @ CHR '','' # ?rest) = Some (v, CHR '','' # ?rest)"
    using 14(1) [OF m1 nd] .
  have b: "parse_members m (stringify_members i (m' # ms) @ newline_indent j @ CHR ''}'' # r) = Some (m' # ms, r)"
    using 14(2) [OF _ m2] by simp
  have q: "quote k @ CHR '':'' # CHR '' '' # stringify_at i v @ CHR '','' # ?rest
      = CHR 0x22 # (tl (quote k) @ CHR '':'' # CHR '' '' # stringify_at i v @ CHR '','' # ?rest)"
    by (simp add: quote_def)
  have ws: "parse_value m (CHR '' '' # stringify_at i v @ CHR '','' # ?rest)
      = parse_value m (stringify_at i v @ CHR '','' # ?rest)"
    by (cases m) (simp_all add: skip_ws_def is_ws_def)
  show ?case
    using a b by (simp add: n q ws parse_chars_quoted parse_members_newline_indent skip_ws_nonws is_ws_def)
qed

lemma stringify_at_nonempty: "1 \<le> length (stringify_at i v)"
  using stringify_at_start [of i v] by auto

lemma depth_le_length:
  "depth_value v \<le> length (stringify_at i v)"
  "depth_items vs \<le> Suc (length (stringify_items i vs))"
  "depth_members ms \<le> Suc (length (stringify_members i ms))"
proof (induction i v and i vs and i ms rule: stringify_at_stringify_items_stringify_members.induct)
  case (3 i n)
  then show ?case using stringify_at_nonempty [of i "JNum n"] by simp
next
  case (4 i s)
  then show ?case by (simp add: quote_def)
qed (simp_all add: newline_indent_def)

lemma JSON_parse_stringify: "JSON_parse (stringify v) = Some v"
proof -
  have "depth_value v \<le> 2 * length (stringify_at 0 v) + 2"
    using depth_le_length(1) [of v 0] by simp
  then have "parse_value (2 * length (stringify_at 0 v) + 2) (stringify_at 0 v @ []) = Some (v, [])"
    by (intro roundtrip_aux(1)) (simp_all add: no_digit_start_def)
  then show ?thesis
    by (simp add: JSON_parse_def stringify_def skip_ws_def)
qed

section \<open>The recursion bound of the parser\<close>

text \<open>
  Every successful call of the parser returns a strictly shorter rest, so a recursion depth of
  twice the length of the text plus two is never exhausted: with any larger bound the parser
  returns the same result. A text that \<open>JSON_parse\<close> refuses is refused for what it says.
\<close>

lemma skip_ws_length: "length (skip_ws cs) \<le> length cs"
  by (simp add: skip_ws_def length_dropWhile_le)

lemma parse_chars_length: "parse_chars cs = Some (s, t) \<Longrightarrow> length t < length cs"
proof (induction "length cs" arbitrary: cs s t rule: less_induct)
  case less
  show ?case
  proof (cases cs)
    case Nil
    with less.prems show ?thesis by simp
  next
    case (Cons c r)
    note cs = Cons
    consider (quote) "c = CHR 0x22"
      | (esc) "c \<noteq> CHR 0x22" "c = CHR 0x5C"
      | (plain) "c \<noteq> CHR 0x22" "c \<noteq> CHR 0x5C"
      by blast
    then show ?thesis
    proof cases
      case quote
      with less.prems cs show ?thesis by simp
    next
      case plain
      with less.prems cs obtain s' where "parse_chars r = Some (s', t)"
        by (auto split: if_splits option.splits)
      from less.hyps [OF _ this] cs show ?thesis by simp
    next
      case esc
      show ?thesis
      proof (cases r)
        case Nil
        with esc less.prems cs show ?thesis by simp
      next
        case (Cons e r1)
        note r = Cons
        show ?thesis
        proof (cases "e = CHR ''u''")
          case False
          with esc less.prems cs r obtain s' where "parse_chars r1 = Some (s', t)"
            by (auto split: option.splits)
          from less.hyps [OF _ this] cs r show ?thesis by simp
        next
          case True
          with esc less.prems cs r obtain h1 h2 h3 h4 r' s'
            where "r1 = h1 # h2 # h3 # h4 # r'" "parse_chars r' = Some (s', t)"
            by (auto split: list.splits option.splits)
          with less.hyps [OF _ this(2)] cs r show ?thesis by simp
        qed
      qed
    qed
  qed
qed


lemma parse_digits_length: "parse_digits acc cs = (n, t) \<Longrightarrow> length t \<le> length cs"
proof (induction cs arbitrary: acc)
  case Nil
  then show ?case by simp
next
  case (Cons c cs)
  show ?case
  proof (cases "is_digit c")
    case True
    with Cons.prems have "parse_digits (acc * 10 + (of_char c - 48)) cs = (n, t)" by simp
    from Cons.IH [OF this] show ?thesis by simp
  next
    case False
    with Cons.prems show ?thesis by simp
  qed
qed

lemma parse_unsigned_length: "parse_unsigned cs = Some (n, t) \<Longrightarrow> length t < length cs"
proof (cases cs)
  case Nil
  assume "parse_unsigned cs = Some (n, t)"
  with Nil show ?thesis by (simp add: parse_unsigned_def)
next
  case (Cons c r)
  assume a: "parse_unsigned cs = Some (n, t)"
  show ?thesis
  proof (cases "c = CHR ''0''")
    case True
    with a Cons show ?thesis by (simp add: parse_unsigned_def)
  next
    case False
    with a Cons have d: "is_digit c" and p: "parse_digits 0 (c # r) = (n, t)"
      by (auto simp add: parse_unsigned_def split: if_splits)
    from p d have "parse_digits (of_char c - 48) r = (n, t)" by simp
    from parse_digits_length [OF this] Cons show ?thesis by simp
  qed
qed

lemma parse_number_length: "parse_number cs = Some (k, t) \<Longrightarrow> length t < length cs"
proof (cases cs)
  case Nil
  assume "parse_number cs = Some (k, t)"
  with Nil show ?thesis by (simp add: parse_number_def)
next
  case (Cons c r)
  assume a: "parse_number cs = Some (k, t)"
  show ?thesis
  proof (cases "c = CHR ''-''")
    case True
    with a Cons obtain n where "parse_unsigned r = Some (n, t)"
      by (auto simp add: parse_number_def split: option.splits)
    from parse_unsigned_length [OF this] Cons show ?thesis by simp
  next
    case False
    with a Cons obtain n where "parse_unsigned cs = Some (n, t)"
      by (auto simp add: parse_number_def split: option.splits)
    from parse_unsigned_length [OF this] show ?thesis .
  qed
qed

lemma strip_prefix_length:
  "strip_prefix (p # ps) cs = Some t \<Longrightarrow> length t < length cs"
  by (cases cs) (auto simp add: strip_prefix_def split: if_splits)


lemma skip_ws_Cons_le: "skip_ws cs = c # r \<Longrightarrow> length (c # r) \<le> length cs"
  using skip_ws_length [of cs] by simp

lemma parse_value_step_length:
  assumes items: "\<And>x vs t. parse_items n x = Some (vs, t) \<Longrightarrow> length t < length x"
    and members: "\<And>x ms t. parse_members n x = Some (ms, t) \<Longrightarrow> length t < length x"
    and p: "parse_value (Suc n) cs = Some (v, t)"
  shows "length t < length cs"
proof (cases "skip_ws cs")
  case Nil
  with p show ?thesis by simp
next
  case (Cons c r)
  note sk = Cons
  have le: "length (c # r) \<le> length cs" using sk by (rule skip_ws_Cons_le)
  consider (arr) "c = CHR ''[''" | (obj) "c \<noteq> CHR ''[''" "c = CHR ''{''"
    | (str) "c \<noteq> CHR ''[''" "c \<noteq> CHR ''{''" "c = CHR 0x22"
    | (num) "c \<noteq> CHR ''[''" "c \<noteq> CHR ''{''" "c \<noteq> CHR 0x22" "c = CHR ''-'' \<or> is_digit c"
    | (lit) "c \<noteq> CHR ''[''" "c \<noteq> CHR ''{''" "c \<noteq> CHR 0x22" "\<not> (c = CHR ''-'' \<or> is_digit c)"
    by blast
  then show ?thesis
  proof cases
    case arr
    show ?thesis
    proof (cases "skip_ws r")
      case Nil
      with p sk arr show ?thesis by simp
    next
      case (Cons d r')
      have le2: "length (d # r') \<le> length r" using Cons by (rule skip_ws_Cons_le)
      show ?thesis
      proof (cases "d = CHR '']''")
        case True
        with p sk arr Cons have "t = r'" by simp
        with le le2 show ?thesis by simp
      next
        case False
        with p sk arr Cons obtain vs where "parse_items n (d # r') = Some (vs, t)"
          by (auto split: option.splits)
        from items [OF this] le le2 show ?thesis by simp
      qed
    qed
  next
    case obj
    show ?thesis
    proof (cases "skip_ws r")
      case Nil
      with p sk obj show ?thesis by simp
    next
      case (Cons d r')
      have le2: "length (d # r') \<le> length r" using Cons by (rule skip_ws_Cons_le)
      show ?thesis
      proof (cases "d = CHR ''}''")
        case True
        with p sk obj Cons have "t = r'" by simp
        with le le2 show ?thesis by simp
      next
        case False
        with p sk obj Cons obtain ms where "parse_members n (d # r') = Some (ms, t)"
          by (auto split: option.splits)
        from members [OF this] le le2 show ?thesis by simp
      qed
    qed
  next
    case str
    with p sk obtain s where "parse_chars r = Some (s, t)"
      by (auto split: option.splits)
    from parse_chars_length [OF this] le show ?thesis by simp
  next
    case num
    with p sk obtain k where "parse_number (c # r) = Some (k, t)"
      by (auto split: option.splits)
    from parse_number_length [OF this] le show ?thesis by simp
  next
    case lit
    with p sk have "strip_prefix ''null'' (c # r) = Some t \<or> strip_prefix ''true'' (c # r) = Some t
        \<or> strip_prefix ''false'' (c # r) = Some t"
      by (auto split: option.splits)
    then have "length t < length (c # r)"
      by (auto dest: strip_prefix_length)
    with le show ?thesis by simp
  qed
qed


lemma parse_items_step_length:
  assumes val: "\<And>x v t. parse_value n x = Some (v, t) \<Longrightarrow> length t < length x"
    and items: "\<And>x vs t. parse_items n x = Some (vs, t) \<Longrightarrow> length t < length x"
    and p: "parse_items (Suc n) cs = Some (vs, t)"
  shows "length t < length cs"
proof -
  from p obtain v r where v: "parse_value n cs = Some (v, r)"
    by (auto split: option.splits)
  from val [OF v] have lr: "length r < length cs" .
  show ?thesis
  proof (cases "skip_ws r")
    case Nil
    with p v show ?thesis by simp
  next
    case (Cons c r')
    have le: "length (c # r') \<le> length r" using Cons by (rule skip_ws_Cons_le)
    show ?thesis
    proof (cases "c = CHR '',''")
      case True
      with p v Cons obtain ws where "parse_items n r' = Some (ws, t)"
        by (auto split: option.splits)
      from items [OF this] le lr show ?thesis by simp
    next
      case False
      with p v Cons have "t = r'" by (auto split: if_splits)
      with le lr show ?thesis by simp
    qed
  qed
qed

lemma parse_members_step_length:
  assumes val: "\<And>x v t. parse_value n x = Some (v, t) \<Longrightarrow> length t < length x"
    and members: "\<And>x ms t. parse_members n x = Some (ms, t) \<Longrightarrow> length t < length x"
    and p: "parse_members (Suc n) cs = Some (ms, t)"
  shows "length t < length cs"
proof (cases "skip_ws cs")
  case Nil
  with p show ?thesis by simp
next
  case (Cons q r)
  note sk = Cons
  have l0: "length (q # r) \<le> length cs" using sk by (rule skip_ws_Cons_le)
  from p sk have q: "q = CHR 0x22" by (auto split: if_splits)
  from p sk q obtain k r1 where k: "parse_chars r = Some (k, r1)"
    by (auto split: option.splits)
  from parse_chars_length [OF k] have l1: "length r1 < length r" .
  show ?thesis
  proof (cases "skip_ws r1")
    case Nil
    with p sk q k show ?thesis by simp
  next
    case (Cons c1 r2)
    note sk1 = Cons
    have l2: "length (c1 # r2) \<le> length r1" using sk1 by (rule skip_ws_Cons_le)
    from p sk q k sk1 have c1: "c1 = CHR '':''" by (auto split: if_splits)
    from p sk q k sk1 c1 obtain v r3 where v: "parse_value n r2 = Some (v, r3)"
      by (auto split: option.splits)
    from val [OF v] have l3: "length r3 < length r2" .
    show ?thesis
    proof (cases "skip_ws r3")
      case Nil
      with p sk q k sk1 c1 v show ?thesis by simp
    next
      case (Cons c3 r4)
      have l4: "length (c3 # r4) \<le> length r3" using Cons by (rule skip_ws_Cons_le)
      show ?thesis
      proof (cases "c3 = CHR '',''")
        case True
        with p sk q k sk1 c1 v Cons obtain ms' where "parse_members n r4 = Some (ms', t)"
          by (auto split: option.splits)
        from members [OF this] l0 l1 l2 l3 l4 show ?thesis by simp
      next
        case False
        with p sk q k sk1 c1 v Cons have "t = r4" by (auto split: if_splits)
        with l0 l1 l2 l3 l4 show ?thesis by simp
      qed
    qed
  qed
qed

lemma parse_length:
  "(\<forall>cs v t. parse_value n cs = Some (v, t) \<longrightarrow> length t < length cs)
   \<and> (\<forall>cs vs t. parse_items n cs = Some (vs, t) \<longrightarrow> length t < length cs)
   \<and> (\<forall>cs ms t. parse_members n cs = Some (ms, t) \<longrightarrow> length t < length cs)"
proof (induction n)
  case 0
  show ?case by simp
next
  case (Suc n)
  show ?case
  proof (intro conjI allI impI)
    fix cs v t assume "parse_value (Suc n) cs = Some (v, t)"
    with Suc show "length t < length cs"
      by (intro parse_value_step_length [of n cs v t]) blast+
  next
    fix cs vs t assume "parse_items (Suc n) cs = Some (vs, t)"
    with Suc show "length t < length cs"
      by (intro parse_items_step_length [of n cs vs t]) blast+
  next
    fix cs ms t assume "parse_members (Suc n) cs = Some (ms, t)"
    with Suc show "length t < length cs"
      by (intro parse_members_step_length [of n cs ms t]) blast+
  qed
qed

lemma parse_value_length: "parse_value n cs = Some (v, t) \<Longrightarrow> length t < length cs"
  using parse_length [of n] by blast


lemma parse_items_length: "parse_items n cs = Some (vs, t) \<Longrightarrow> length t < length cs"
  using parse_length [of n] by blast

lemma parse_members_length: "parse_members n cs = Some (ms, t) \<Longrightarrow> length t < length cs"
  using parse_length [of n] by blast

lemma parse_value_step_fuel:
  assumes items: "\<And>x. 2 * length x + 3 \<le> n \<Longrightarrow> parse_items m x = parse_items n x"
    and members: "\<And>x. 2 * length x + 3 \<le> n \<Longrightarrow> parse_members m x = parse_members n x"
    and b: "2 * length cs + 2 \<le> Suc n"
  shows "parse_value (Suc m) cs = parse_value (Suc n) cs"
proof (cases "skip_ws cs")
  case Nil
  then show ?thesis by simp
next
  case (Cons c r)
  note sk = Cons
  have l0: "length (c # r) \<le> length cs" using sk by (rule skip_ws_Cons_le)
  show ?thesis
  proof (cases "skip_ws r")
    case Nil
    with sk show ?thesis by simp
  next
    case (Cons d r')
    have l1: "length (d # r') \<le> length r" using Cons by (rule skip_ws_Cons_le)
    from l0 l1 b have bound: "\<And>y. 2 * length (y # r') + 3 \<le> n" by simp
    have e1: "\<And>y. parse_items m (y # r') = parse_items n (y # r')"
      by (rule items) (rule bound)
    have e2: "\<And>y. parse_members m (y # r') = parse_members n (y # r')"
      by (rule members) (rule bound)
    show ?thesis by (simp add: sk Cons e1 e2)
  qed
qed

lemma parse_items_step_fuel:
  assumes val: "\<And>x. 2 * length x + 2 \<le> n \<Longrightarrow> parse_value m x = parse_value n x"
    and items: "\<And>x. 2 * length x + 3 \<le> n \<Longrightarrow> parse_items m x = parse_items n x"
    and b: "2 * length cs + 3 \<le> Suc n"
  shows "parse_items (Suc m) cs = parse_items (Suc n) cs"
proof -
  from b have "2 * length cs + 2 \<le> n" by simp
  then have ev: "parse_value m cs = parse_value n cs" by (rule val)
  show ?thesis
  proof (cases "parse_value n cs")
    case None
    with ev show ?thesis by simp
  next
    case (Some a)
    obtain v r where a: "a = (v, r)" by (cases a)
    from Some a have lr: "length r < length cs" by (auto dest: parse_value_length)
    show ?thesis
    proof (cases "skip_ws r")
      case Nil
      with ev Some a show ?thesis by simp
    next
      case (Cons c r')
      have "length (c # r') \<le> length r" using Cons by (rule skip_ws_Cons_le)
      with lr b have "2 * length r' + 3 \<le> n" by simp
      then have "parse_items m r' = parse_items n r'" by (rule items)
      with ev Some a Cons show ?thesis by simp
    qed
  qed
qed

lemma parse_members_step_fuel:
  assumes val: "\<And>x. 2 * length x + 2 \<le> n \<Longrightarrow> parse_value m x = parse_value n x"
    and members: "\<And>x. 2 * length x + 3 \<le> n \<Longrightarrow> parse_members m x = parse_members n x"
    and b: "2 * length cs + 3 \<le> Suc n"
  shows "parse_members (Suc m) cs = parse_members (Suc n) cs"
proof (cases "skip_ws cs")
  case Nil
  then show ?thesis by simp
next
  case (Cons q r)
  note sk = Cons
  have l0: "length (q # r) \<le> length cs" using sk by (rule skip_ws_Cons_le)
  show ?thesis
  proof (cases "parse_chars r")
    case None
    with sk show ?thesis by simp
  next
    case (Some a)
    obtain k r1 where a: "a = (k, r1)" by (cases a)
    from Some a have l1: "length r1 < length r" by (auto dest: parse_chars_length)
    show ?thesis
    proof (cases "skip_ws r1")
      case Nil
      with sk Some a show ?thesis by simp
    next
      case (Cons c1 r2)
      note sk1 = Cons
      have l2: "length (c1 # r2) \<le> length r1" using sk1 by (rule skip_ws_Cons_le)
      from l0 l1 l2 b have "2 * length r2 + 2 \<le> n" by simp
      then have ev: "parse_value m r2 = parse_value n r2" by (rule val)
      show ?thesis
      proof (cases "parse_value n r2")
        case None
        with sk Some a sk1 ev show ?thesis by simp
      next
        case v: (Some a')
        obtain w r3 where a': "a' = (w, r3)" by (cases a')
        from v a' have l3: "length r3 < length r2" by (auto dest: parse_value_length)
        show ?thesis
        proof (cases "skip_ws r3")
          case Nil
          with sk Some a sk1 ev v a' show ?thesis by simp
        next
          case (Cons c3 r4)
          have "length (c3 # r4) \<le> length r3" using Cons by (rule skip_ws_Cons_le)
          with l0 l1 l2 l3 b have "2 * length r4 + 3 \<le> n" by simp
          then have "parse_members m r4 = parse_members n r4" by (rule members)
          with sk Some a sk1 ev v a' Cons show ?thesis by simp
        qed
      qed
    qed
  qed
qed

lemma parse_fuel:
  "(\<forall>cs m. n \<le> m \<longrightarrow> 2 * length cs + 2 \<le> n \<longrightarrow> parse_value m cs = parse_value n cs)
   \<and> (\<forall>cs m. n \<le> m \<longrightarrow> 2 * length cs + 3 \<le> n \<longrightarrow> parse_items m cs = parse_items n cs)
   \<and> (\<forall>cs m. n \<le> m \<longrightarrow> 2 * length cs + 3 \<le> n \<longrightarrow> parse_members m cs = parse_members n cs)"
proof (induction n)
  case 0
  show ?case by simp
next
  case (Suc n)
  show ?case
  proof (intro conjI allI impI)
    fix cs :: string and m :: nat assume m: "Suc n \<le> m" and b: "2 * length cs + 2 \<le> Suc n"
    from m obtain m' where m': "m = Suc m'" "n \<le> m'" by (cases m) auto
    from Suc m'(2) b show "parse_value m cs = parse_value (Suc n) cs"
      unfolding m'(1) by (intro parse_value_step_fuel) blast+
  next
    fix cs :: string and m :: nat assume m: "Suc n \<le> m" and b: "2 * length cs + 3 \<le> Suc n"
    from m obtain m' where m': "m = Suc m'" "n \<le> m'" by (cases m) auto
    from Suc m'(2) b show "parse_items m cs = parse_items (Suc n) cs"
      unfolding m'(1) by (intro parse_items_step_fuel) blast+
  next
    fix cs :: string and m :: nat assume m: "Suc n \<le> m" and b: "2 * length cs + 3 \<le> Suc n"
    from m obtain m' where m': "m = Suc m'" "n \<le> m'" by (cases m) auto
    from Suc m'(2) b show "parse_members m cs = parse_members (Suc n) cs"
      unfolding m'(1) by (intro parse_members_step_fuel) blast+
  qed
qed

lemma parse_value_fuel:
  "2 * length cs + 2 \<le> m \<Longrightarrow> parse_value m cs = parse_value (2 * length cs + 2) cs"
  using parse_fuel [of "2 * length cs + 2"] by blast

lemma JSON_parse_fuel:
  "2 * length cs + 2 \<le> m \<Longrightarrow>
   JSON_parse cs = (case parse_value m cs of
                      None \<Rightarrow> None
                    | Some (v, r) \<Rightarrow> if skip_ws r = [] then Some v else None)"
  by (simp add: JSON_parse_def parse_value_fuel)


section \<open>The store on disk\<close>

lemma stringify_nonempty: "stringify v \<noteq> []"
  using stringify_at_start [of 0 v] by (auto simp add: stringify_def)

lemma readJson_writeJson:
  "truthy v \<Longrightarrow> readJson (writeJson fs file v) file fallback = v"
  by (simp add: readJson_def writeJson_def writeFileSync_def readFileSync_def
      stringify_nonempty JSON_parse_stringify)

lemma writeJson_other: "p \<noteq> file \<Longrightarrow> writeJson fs file v p = fs p"
  by (simp add: writeJson_def writeFileSync_def)

lemma episode_of_json_to_json: "episode_of_json (episode_to_json e) = Some e"
  by (cases "e_title e"; cases "e_type e"; cases "e_src e"; cases "e_fileName e")
     (simp_all add: episode_of_json_def episode_to_json_def)

lemma those_map_Some: "(\<And>x. f (g x) = Some x) \<Longrightarrow> those (map (f \<circ> g) xs) = Some xs"
  by (induction xs) simp_all

lemma series_of_json_to_json: "series_of_json (series_to_json s) = Some s"
  by (simp add: series_of_json_def series_to_json_def those_map_Some episode_of_json_to_json)

lemma collection_of_json_to_json: "collection_of_json (collection_to_json c) = Some c"
  by (simp add: collection_of_json_def collection_to_json_def those_map_Some series_of_json_to_json)

lemma load_save_series: "load_series (save_series fs c) = Some c"
  by (simp add: load_series_def save_series_def readJson_writeJson collection_to_json_def
      collection_of_json_to_json [unfolded collection_to_json_def])

lemma save_series_other: "p \<noteq> SERIES_FILE \<Longrightarrow> save_series fs c p = fs p"
  by (simp add: save_series_def writeJson_other)

section \<open>Joining paths\<close>

lemma split_on_nonempty: "split_on c x \<noteq> []"
  by (induction x) (auto split: list.splits)

lemma split_on_append: "split_on c (a @ c # b) = split_on c a @ split_on c b"
proof (induction a)
  case Nil
  show ?case by simp
next
  case (Cons x a)
  obtain s ss where s: "split_on c a = s # ss"
    using split_on_nonempty [of c a] by (cases "split_on c a") auto
  with Cons show ?case by simp
qed

lemma split_on_notin: "c \<notin> set x \<Longrightarrow> split_on c x = [x]"
  by (induction x) auto

lemma split_on_no_sep: "s \<in> set (split_on c x) \<Longrightarrow> c \<notin> set s"
proof (induction x arbitrary: s)
  case Nil
  then show ?case by simp
next
  case (Cons a x)
  obtain t ts where t: "split_on c x = t # ts"
    using split_on_nonempty [of c x] by (cases "split_on c x") auto
  with Cons show ?case by (auto split: if_splits)
qed

lemma normalizeString_fold:
  "normalizeString ab res ss = rev (fold (push_segment ab) ss res)"
  by (induction ss arbitrary: res) (auto simp add: push_segment_def split: list.splits)

lemma push_segment_normal:
  "normal_stack ab res \<Longrightarrow> CHR ''/'' \<notin> set s \<Longrightarrow> normal_stack ab (push_segment ab s res)"
  by (cases res) (auto simp add: push_segment_def ordinary_def)

lemma fold_push_normal:
  "normal_stack ab res \<Longrightarrow> \<forall>s \<in> set ss. CHR ''/'' \<notin> set s \<Longrightarrow>
   normal_stack ab (fold (push_segment ab) ss res)"
  by (induction ss arbitrary: res) (simp_all add: push_segment_normal)

lemma normal_stack_elem: "normal_stack ab zs \<Longrightarrow> z \<in> set zs \<Longrightarrow> z = ''..'' \<or> ordinary z"
  by (induction zs) auto

lemma normal_stack_below_dots:
  "normal_stack ab (as @ ''..'' # bs) \<Longrightarrow> ab \<and> (\<forall>s \<in> set bs. s = ''..'')"
  by (induction as) (auto simp add: ordinary_def)

lemma normal_stack_suffix: "normal_stack ab (as @ bs) \<Longrightarrow> normal_stack ab bs"
proof (induction as)
  case Nil
  then show ?case by simp
next
  case (Cons a as)
  show ?case
  proof (cases "a = ''..''")
    case True
    with Cons.prems have "ab" "\<forall>s \<in> set bs. s = ''..''" by (auto simp add: ordinary_def)
    then show ?thesis by (induction bs) auto
  next
    case False
    with Cons show ?thesis by auto
  qed
qed

lemma fold_push_identity:
  "normal_stack ab (rev xs @ acc) \<Longrightarrow> fold (push_segment ab) xs acc = rev xs @ acc"
proof (induction xs arbitrary: acc)
  case Nil
  show ?case by simp
next
  case (Cons x xs)
  from Cons.prems have n: "normal_stack ab (rev xs @ x # acc)" by simp
  then have xa: "normal_stack ab (x # acc)" by (rule normal_stack_suffix)
  have "push_segment ab x acc = x # acc"
  proof (cases "x = ''..''")
    case True
    with xa have "ab" "\<forall>s \<in> set acc. s = ''..''" by (auto simp add: ordinary_def)
    with True show ?thesis by (cases acc) (auto simp add: push_segment_def)
  next
    case False
    with xa have "ordinary x" by auto
    then show ?thesis by (simp add: push_segment_def ordinary_def)
  qed
  with Cons.IH [of "x # acc"] n show ?case by simp
qed

lemma join_with_Cons:
  "join_with sep (x # xs) = (if xs = [] then x else x @ sep @ join_with sep xs)"
  by (cases xs) simp_all

lemma split_join:
  "xs \<noteq> [] \<Longrightarrow> \<forall>s \<in> set xs. CHR ''/'' \<notin> set s \<Longrightarrow>
   split_on CHR ''/'' (join_with ''/'' xs) = xs"
proof (induction xs)
  case Nil
  then show ?case by simp
next
  case (Cons x xs)
  show ?case
  proof (cases "xs = []")
    case True
    with Cons.prems show ?thesis by (simp add: split_on_notin)
  next
    case False
    with Cons have "split_on CHR ''/'' (join_with ''/'' xs) = xs" by simp
    with Cons.prems False show ?thesis
      using split_on_append [of "CHR ''/''" x "join_with ''/'' xs"]
      by (simp add: join_with_Cons split_on_notin)
  qed
qed


lemma path_normalize_render:
  "p \<noteq> [] \<Longrightarrow>
   path_normalize p
   = render (hd p = CHR ''/'') (last p = CHR ''/'')
       (rev (fold (push_segment (hd p \<noteq> CHR ''/'')) (split_on CHR ''/'' p) []))"
  by (simp add: path_normalize_def render_def normalizeString_fold Let_def)

lemma join_with_hd: "x \<noteq> [] \<Longrightarrow> hd (join_with sep (x # xs)) = hd x"
  by (simp add: join_with_Cons)

lemma join_with_nonempty: "x \<noteq> [] \<Longrightarrow> join_with sep (x # xs) \<noteq> []"
  by (simp add: join_with_Cons)

lemma normal_stack_no_slash: "normal_stack ab zs \<Longrightarrow> z \<in> set zs \<Longrightarrow> z \<noteq> [] \<and> CHR ''/'' \<notin> set z"
  using normal_stack_elem [of ab zs z] by (auto simp add: ordinary_def)

lemma path_join_uploads:
  assumes d: "dirname \<noteq> []" and f: "fn \<noteq> []"
  shows "path_join (path_join dirname ''uploads'') fn = path_join dirname (''/uploads/'' @ fn)"
proof -
  define ab where "ab = (hd dirname \<noteq> CHR ''/'')"
  define Sd where "Sd = fold (push_segment ab) (split_on CHR ''/'' dirname) []"
  define N where "N = rev (''uploads'' # Sd)"
  define A where "A = path_join dirname ''uploads''"
  have nd: "normal_stack ab Sd"
    unfolding Sd_def by (rule fold_push_normal) (auto dest: split_on_no_sep)
  have nS: "normal_stack ab (rev N)" using nd by (simp add: N_def ordinary_def)
  have nN: "\<forall>z \<in> set N. z \<noteq> [] \<and> CHR ''/'' \<notin> set z"
    using normal_stack_no_slash [OF nS] by auto
  obtain x xs where N: "N = x # xs" by (cases N) (auto simp add: N_def)
  then have "x \<in> set N" by simp
  with nN have x: "x \<noteq> []" "CHR ''/'' \<notin> set x" by auto
  have J: "join_with ''/'' N \<noteq> []" unfolding N using x(1) by (rule join_with_nonempty)
  have A1: "A = path_normalize (dirname @ CHR ''/'' # ''uploads'')"
    using d by (simp add: A_def path_join_def)
  have sA: "split_on CHR ''/'' (dirname @ CHR ''/'' # ''uploads'')
            = split_on CHR ''/'' dirname @ [''uploads'']"
    by (simp add: split_on_append split_on_notin)
  have "fold (push_segment ab) (split_on CHR ''/'' dirname @ [''uploads'']) [] = ''uploads'' # Sd"
    by (simp add: Sd_def push_segment_def)
  then have fA: "rev (fold (push_segment ab) (split_on CHR ''/'' dirname @ [''uploads'']) []) = N"
    by (simp add: N_def)
  have "A = render (hd dirname = CHR ''/'') False N"
    unfolding A1 using d fA by (simp add: path_normalize_render sA ab_def)
  then have A2: "A = (if ab then [] else ''/'') @ join_with ''/'' N"
    using J by (simp add: render_def Let_def ab_def)
  have A3: "A \<noteq> []" using A2 J by simp
  have hA: "(hd A = CHR ''/'') = (hd dirname = CHR ''/'')"
  proof (cases ab)
    case True
    with A2 N have "hd A = hd x" using join_with_hd [OF x(1), of "''/''" xs] by simp
    moreover from x have "hd x \<noteq> CHR ''/''" by (cases x) auto
    ultimately show ?thesis using True by (simp add: ab_def)
  next
    case False
    with A2 show ?thesis by (simp add: ab_def)
  qed
  have spA: "fold (push_segment ab) (split_on CHR ''/'' A) [] = rev N"
  proof -
    have sj: "split_on CHR ''/'' (join_with ''/'' N) = N"
      using nN N by (intro split_join) auto
    have "fold (push_segment ab) (split_on CHR ''/'' A) [] = fold (push_segment ab) N []"
    proof (cases ab)
      case True
      with A2 sj show ?thesis by simp
    next
      case False
      then have "A = [] @ CHR ''/'' # join_with ''/'' N" using A2 by simp
      then have "split_on CHR ''/'' A = [[]] @ N"
        using split_on_append [of "CHR ''/''" "[]" "join_with ''/'' N"] sj by simp
      then show ?thesis by (simp add: push_segment_def)
    qed
    also have "\<dots> = rev N @ []"
      using nS by (intro fold_push_identity) simp
    finally show ?thesis by simp
  qed
  have B: "path_join A fn
           = render (hd dirname = CHR ''/'') (last fn = CHR ''/'')
               (rev (fold (push_segment ab) (split_on CHR ''/'' fn) (rev N)))"
  proof -
    have nb: "A @ CHR ''/'' # fn \<noteq> []" by simp
    have h: "hd (A @ CHR ''/'' # fn) = hd A" using A3 by simp
    have l: "last (A @ CHR ''/'' # fn) = last fn" using f by simp
    have s: "split_on CHR ''/'' (A @ CHR ''/'' # fn)
               = split_on CHR ''/'' A @ split_on CHR ''/'' fn"
      by (rule split_on_append)
    have "path_join A fn = path_normalize (A @ CHR ''/'' # fn)"
      using A3 f by (simp add: path_join_def)
    also have "\<dots> = render (hd dirname = CHR ''/'') (last fn = CHR ''/'')
        (rev (fold (push_segment ab) (split_on CHR ''/'' A @ split_on CHR ''/'' fn) []))"
      unfolding path_normalize_render [OF nb] h l s hA by (simp add: ab_def)
    finally show ?thesis using spA by simp
  qed
  have C: "path_join dirname (''/uploads/'' @ fn)
           = render (hd dirname = CHR ''/'') (last fn = CHR ''/'')
               (rev (fold (push_segment ab) (split_on CHR ''/'' fn) (rev N)))"
  proof -
    define r where "r = dirname @ CHR ''/'' # ([] @ CHR ''/'' # (''uploads'' @ CHR ''/'' # fn))"
    have nb: "r \<noteq> []" by (simp add: r_def)
    have h: "hd r = hd dirname" using d by (simp add: r_def)
    have l: "last r = last fn" using f by (simp add: r_def)
    have s: "split_on CHR ''/'' r
               = split_on CHR ''/'' dirname @ [[]] @ [''uploads''] @ split_on CHR ''/'' fn"
      unfolding r_def by (simp only: split_on_append) (simp add: split_on_notin)
    have "path_join dirname (''/uploads/'' @ fn) = path_normalize r"
      using d by (simp add: path_join_def r_def)
    also have "\<dots> = render (hd dirname = CHR ''/'') (last fn = CHR ''/'')
        (rev (fold (push_segment ab)
                (split_on CHR ''/'' dirname @ [[]] @ [''uploads''] @ split_on CHR ''/'' fn) []))"
      unfolding path_normalize_render [OF nb] h l s by (simp add: ab_def)
    finally show ?thesis by (simp add: push_segment_def N_def Sd_def)
  qed
  from B C show ?thesis by (simp add: A_def)
qed

lemma file_path_B_src:
  "dirname \<noteq> [] \<Longrightarrow> filename f \<noteq> [] \<Longrightarrow>
   path_join dirname (''/uploads/'' @ filename f) = file_path_B dirname f"
  by (simp add: file_path_B_def uploadsDir_def path_join_uploads)

section \<open>Lists, files and the handlers\<close>

lemma unlink_upload_eq:
  "unlink_upload dirname fs src
   = (if startsWith src ''/uploads/'' then fs(path_join dirname src := None) else fs)"
  by (auto simp add: unlink_upload_def Let_def existsSync_def unlinkSync_def split: option.splits)

lemma unlink_targets_Nil: "unlink_targets dirname [] = {}"
  by (simp add: unlink_targets_def map_filter_simps)

lemma unlink_targets_Cons:
  "unlink_targets dirname (ep # eps)
   = (case e_src ep of
        None \<Rightarrow> {}
      | Some src \<Rightarrow> if startsWith src ''/uploads/'' then {path_join dirname src} else {})
     \<union> unlink_targets dirname eps"
  by (auto simp add: unlink_targets_def map_filter_simps split: option.splits)

lemma unlink_targets_iff:
  "p \<in> unlink_targets dirname eps
   \<longleftrightarrow> (\<exists>ep \<in> set eps. \<exists>src. e_src ep = Some src \<and> startsWith src ''/uploads/''
                              \<and> p = path_join dirname src)"
  by (induction eps) (auto simp add: unlink_targets_Nil unlink_targets_Cons split: option.splits)

lemma unlink_episodes_eq:
  "unlink_episodes dirname fs eps
   = (if list_all (\<lambda>ep. e_src ep \<noteq> None) eps
      then Inr (\<lambda>p. if p \<in> unlink_targets dirname eps then None else fs p)
      else Inl (\<lambda>p. if p \<in> unlink_targets dirname (with_src eps) then None else fs p))"
proof (induction eps arbitrary: fs)
  case Nil
  show ?case by (simp add: unlink_targets_Nil)
next
  case (Cons ep eps)
  show ?case
  proof (cases "e_src ep")
    case None
    then show ?thesis by (simp add: with_src_def unlink_targets_Nil)
  next
    case (Some src)
    have "unlink_episodes dirname fs (ep # eps)
          = unlink_episodes dirname (unlink_upload dirname fs src) eps"
      using Some by simp
    also have "\<dots> = (if list_all (\<lambda>ep. e_src ep \<noteq> None) eps
        then Inr (\<lambda>p. if p \<in> unlink_targets dirname eps then None
                       else unlink_upload dirname fs src p)
        else Inl (\<lambda>p. if p \<in> unlink_targets dirname (with_src eps) then None
                       else unlink_upload dirname fs src p))"
      by (rule Cons.IH)
    also have "\<dots> = (if list_all (\<lambda>ep. e_src ep \<noteq> None) (ep # eps)
        then Inr (\<lambda>p. if p \<in> unlink_targets dirname (ep # eps) then None else fs p)
        else Inl (\<lambda>p. if p \<in> unlink_targets dirname (with_src (ep # eps)) then None else fs p))"
      using Some
      by (auto simp add: unlink_upload_eq unlink_targets_Cons with_src_def fun_eq_iff)
    finally show ?thesis .
  qed
qed

lemma find_update_first_id:
  "(\<And>x. s_id (f x) = s_id x) \<Longrightarrow>
   find (\<lambda>x. s_id x = a) (update_first (\<lambda>x. s_id x = a) f xs)
   = map_option f (find (\<lambda>x. s_id x = a) xs)"
  by (induction xs) simp_all

lemma load_series_cong: "fs SERIES_FILE = fs' SERIES_FILE \<Longrightarrow> load_series fs = load_series fs'"
  by (simp add: load_series_def readJson_def readFileSync_def)

lemma load_series_multer_store: "load_series (multer_store fs f) = load_series fs"
  by (rule load_series_cong) (simp add: multer_store_def file_path_def SERIES_FILE_def)

lemma load_series_disk_A: "load_series disk_A = Some [naruto]"
  by (simp add: disk_A_def load_save_series)

lemma path_join_examples:
  "file_path_B app_dir pilot_file = ''/srv/app/uploads/video-1-2.mp4''"
  "file_path_B app_dir clip_B = ''/srv/app/uploads/video-7-8.mp4''"
  "path_join app_dir ''/uploads/video-1-2.mp4'' = ''/srv/app/uploads/video-1-2.mp4''"
  "path_join app_dir ''/uploads/video-7-8.mp4'' = ''/srv/app/uploads/video-7-8.mp4''"
  "path_join app_dir ''/uploads/cover.png'' = ''/srv/app/uploads/cover.png''"
  "path_join app_dir ''/uploads/../keep.txt'' = ''/srv/app/keep.txt''"
  by code_simp+

lemma ex_post_episode_A_file:
  "post_episode_A disk_A (Some bob) ''1'' (Some clip) None None None 5 6
   = (SuccessWithSeries (naruto\<lparr>s_episodes := [ep1, ep2, uploaded_ep]\<rparr>),
      save_series (multer_store disk_A clip) [naruto\<lparr>s_episodes := [ep1, ep2, uploaded_ep]\<rparr>])"
  by (simp add: post_episode_A_def load_series_multer_store load_series_disk_A Let_def
      naruto_def uploaded_ep_def clip_def bob_def or_else_def numeral_3_eq_3)

lemma ex_post_episode_A_url:
  "post_episode_A disk_A (Some bob) ''1'' None (Some ''Third'') None (Some ''https://cdn.example/3.mp4'') 5 6
   = (SuccessWithSeries (naruto\<lparr>s_episodes := [ep1, ep2, linked_ep]\<rparr>),
      save_series disk_A [naruto\<lparr>s_episodes := [ep1, ep2, linked_ep]\<rparr>])"
  by (simp add: post_episode_A_def load_series_disk_A Let_def
      naruto_def linked_ep_def bob_def or_else_def numeral_3_eq_3)

lemma ex_post_episode_B_file:
  "post_episode_B app_dir memory_B (Some bob) ''1'' (Some clip_B) None None None
   = (EpisodeCreated uploaded_ep_B,
      memory_B\<lparr>files := multer_store_B app_dir disk_B clip_B,
                series_B := [naruto\<lparr>s_episodes := [ep1, ep2, uploaded_ep_B]\<rparr>]\<rparr>)"
  by (simp add: post_episode_B_def memory_B_def Let_def naruto_def uploaded_ep_B_def clip_B_def
      bob_def or_else_def numeral_3_eq_3)

lemma ex_post_episode_B_url:
  "post_episode_B app_dir memory_B (Some bob) ''1'' None (Some ''Third'')
     (Some ''https://cdn.example/3.mp4'') None
   = (EpisodeCreated linked_ep_B,
      memory_B\<lparr>series_B := [naruto\<lparr>s_episodes := [ep1, ep2, linked_ep_B]\<rparr>]\<rparr>)"
  by (simp add: post_episode_B_def memory_B_def Let_def naruto_def linked_ep_B_def
      bob_def or_else_def numeral_3_eq_3)

lemma ex_delete_episode_B:
  "delete_episode_B app_dir memory_B (Some root) ''1'' ''1-1''
   = (Success, memory_B\<lparr>files := disk_B(''/srv/app/uploads/video-1-2.mp4'' := None),
                          series_B := [naruto\<lparr>s_episodes := [ep2]\<rparr>]\<rparr>)"
  by (simp add: delete_episode_B_def memory_B_def root_def naruto_def ep1_def ep2_def
      unlink_upload_eq startsWith_def path_join_examples)

lemma ex_delete_series_B:
  "delete_series_B app_dir memory_B (Some root) ''1''
   = (Success, memory_B\<lparr>files := disk_B(''/srv/app/uploads/video-1-2.mp4'' := None),
                          series_B := []\<rparr>)"
  by (simp add: delete_series_B_def memory_B_def root_def naruto_def ep1_def ep2_def
      unlink_upload_eq startsWith_def path_join_examples)

lemma ex_delete_series_escaping:
  "delete_series_B app_dir escaping_B (Some root) ''1''
   = (Success, escaping_B\<lparr>files := disk_B(''/srv/app/uploads/video-1-2.mp4'' := None,
                                              ''/srv/app/keep.txt'' := None),
                            series_B := []\<rparr>)"
  by (simp add: delete_series_B_def escaping_B_def escaping_series_def root_def ep1_def
      escaping_ep_def unlink_upload_eq startsWith_def path_join_examples)

lemma ex_delete_series_bare:
  "delete_series_B app_dir bare_B (Some root) ''1''
   = (Error ServerError, bare_B\<lparr>files := disk_B(''/srv/app/uploads/video-1-2.mp4'' := None)\<rparr>)"
  by (simp add: delete_series_B_def bare_B_def bare_series_def root_def ep1_def
      bare_ep_def unlink_upload_eq startsWith_def path_join_examples)

lemma ex_delete_episode_bare:
  "delete_episode_B app_dir bare_B (Some root) ''1'' ''1-2'' = (Error ServerError, bare_B)"
  by (simp add: delete_episode_B_def bare_B_def bare_series_def root_def ep1_def bare_ep_def)

lemma ex_put_image_A:
  "put_image_A disk_A (Some bob) ''1'' (Some ''/uploads/new.png'')
   = (SuccessWithSeries (naruto\<lparr>s_image := ''/uploads/new.png''\<rparr>),
      save_series disk_A [naruto\<lparr>s_image := ''/uploads/new.png''\<rparr>])"
  by (simp add: put_image_A_def load_series_disk_A Let_def or_else_def naruto_def)

lemma disk_A_other: "p \<noteq> SERIES_FILE \<Longrightarrow> disk_A p = disk p"
  by (simp add: disk_A_def save_series_other)
section \<open>Unreadable documents\<close>

lemma JSON_parse_null: "JSON_parse ''null'' = Some JNull"
  by (simp add: JSON_parse_def skip_ws_def is_ws_def is_digit_def strip_prefix_def eval_nat_numeral)

lemma JSON_parse_open: "JSON_parse ''[{'' = None"
  by (simp add: JSON_parse_def skip_ws_def is_ws_def is_digit_def strip_prefix_def eval_nat_numeral)

lemma JSON_parse_bracket: "JSON_parse ''['' = None"
  by (simp add: JSON_parse_def skip_ws_def is_ws_def is_digit_def strip_prefix_def eval_nat_numeral)

lemma readJson_fallback:
  "fs file = None \<or> (\<exists>d. fs file = Some d \<and> JSON_parse (if d = [] then ''null'' else d) = None)
   \<Longrightarrow> readJson fs file fallback = fallback"
  by (auto simp add: readJson_def readFileSync_def)

lemma readJson_empty_file: "fs file = Some [] \<Longrightarrow> readJson fs file fallback = fallback"
  by (simp add: readJson_def readFileSync_def JSON_parse_null)

lemma collection_of_json_Nil: "collection_of_json (JArr []) = Some []"
  by (simp add: collection_of_json_def)

lemma stringify_JArr_Cons_take1: "take 1 (stringify (JArr (v # vs))) = ''[''"
  by (simp add: stringify_def)

section \<open>Identifiers\<close>

lemma show_nat_inj: "show_nat a = show_nat b \<Longrightarrow> a = b"
  by (metis show_nat_value)

lemma counter_ids_fresh: "counter_ids n c \<Longrightarrow> show_nat n \<notin> set (map s_id c)"
proof
  assume c: "counter_ids n c" and "show_nat n \<in> set (map s_id c)"
  then obtain x where x: "x \<in> set c" "s_id x = show_nat n" by auto
  with c obtain k where "k < n" "s_id x = show_nat k"
    by (auto simp add: counter_ids_def list_all_iff)
  with x show False using show_nat_inj [of n k] by simp
qed

lemma counter_ids_snoc:
  "counter_ids n c \<Longrightarrow> s_id s = show_nat n \<Longrightarrow> counter_ids (Suc n) (c @ [s])"
  using counter_ids_fresh [of n c]
  by (auto simp add: counter_ids_def list_all_iff)

lemma map_id_update_first:
  "(\<And>x. s_id (f x) = s_id x) \<Longrightarrow> map s_id (update_first p f xs) = map s_id xs"
  by (induction xs) simp_all

lemma counter_ids_update_first:
  "(\<And>x. s_id (f x) = s_id x) \<Longrightarrow> counter_ids n c \<Longrightarrow> counter_ids n (update_first p f c)"
proof -
  assume f: "\<And>x. s_id (f x) = s_id x" and c: "counter_ids n c"
  have m: "map s_id (update_first p f c) = map s_id c" using f by (rule map_id_update_first)
  have "list_all (\<lambda>s. s_id s \<in> set (map show_nat [0..<n])) c = list_all (\<lambda>i. i \<in> set (map show_nat [0..<n])) (map s_id c)"
    by (simp add: list_all_iff)
  moreover have "list_all (\<lambda>s. s_id s \<in> set (map show_nat [0..<n])) (update_first p f c)
      = list_all (\<lambda>i. i \<in> set (map show_nat [0..<n])) (map s_id (update_first p f c))"
    by (simp add: list_all_iff)
  ultimately show ?thesis using c m by (simp add: counter_ids_def)
qed

lemma set_remove_first: "set (remove_first p xs) \<subseteq> set xs"
  by (induction xs) auto

lemma distinct_remove_first: "distinct (map k xs) \<Longrightarrow> distinct (map k (remove_first p xs))"
proof (induction xs)
  case Nil
  show ?case by simp
next
  case (Cons x xs)
  then show ?case using set_remove_first [of p xs] by auto
qed

lemma counter_ids_remove_first: "counter_ids n c \<Longrightarrow> counter_ids n (remove_first p c)"
  using set_remove_first [of p c]
  by (auto simp add: counter_ids_def list_all_iff distinct_remove_first)

lemma reject_B_series: "series_B (snd (reject_B dirname e st fl)) = series_B st
    \<and> nextSeriesId (snd (reject_B dirname e st fl)) = nextSeriesId st"
  by (simp add: reject_B_def split: sum.splits)

lemma post_series_B_cases:
  "(series_B (snd (post_series_B dirname st auth fl pseudo name desc image' episodes)) = series_B st
     \<and> nextSeriesId (snd (post_series_B dirname st auth fl pseudo name desc image' episodes))
         = nextSeriesId st)
   \<or> (\<exists>new. s_id new = show_nat (nextSeriesId st)
        \<and> series_B (snd (post_series_B dirname st auth fl pseudo name desc image' episodes))
            = series_B st @ [new]
        \<and> nextSeriesId (snd (post_series_B dirname st auth fl pseudo name desc image' episodes))
            = Suc (nextSeriesId st))"
  by (simp add: post_series_B_def Let_def reject_B_series split: option.splits)

lemma delete_series_B_counter:
  "nextSeriesId (snd (delete_series_B dirname st auth id')) = nextSeriesId st
   \<and> (counter_ids n (series_B st)
        \<longrightarrow> counter_ids n (series_B (snd (delete_series_B dirname st auth id'))))"
  by (auto simp add: delete_series_B_def counter_ids_remove_first split: option.splits sum.splits)

lemma post_episode_B_counter:
  "nextSeriesId (snd (post_episode_B dirname st auth id' upl title url pseudo)) = nextSeriesId st
   \<and> (counter_ids n (series_B st)
        \<longrightarrow> counter_ids n (series_B (snd (post_episode_B dirname st auth id' upl title url pseudo))))"
  by (auto simp add: post_episode_B_def Let_def counter_ids_update_first
      split: option.splits sum.splits)

lemma delete_episode_B_counter:
  "nextSeriesId (snd (delete_episode_B dirname st auth seriesId episodeId)) = nextSeriesId st
   \<and> (counter_ids n (series_B st)
        \<longrightarrow> counter_ids n (series_B (snd (delete_episode_B dirname st auth seriesId episodeId))))"
  by (auto simp add: delete_episode_B_def counter_ids_update_first split: option.splits)

lemma steps_B_counter_mono: "steps_B dirname st st' \<Longrightarrow> nextSeriesId st \<le> nextSeriesId st'"
proof (induction rule: steps_B.induct)
  case no_request
  show ?case by simp
next
  case (post_series st1 auth req_files pseudo name desc image' episodes)
  from post_series_B_cases [of dirname st1 auth req_files pseudo name desc image' episodes]
    post_series.IH
  show ?case by auto
next
  case (delete_series st1 auth id')
  then show ?case by (simp add: delete_series_B_counter)
next
  case (post_episode st1 auth id' upl title url pseudo)
  then show ?case by (simp add: post_episode_B_counter)
next
  case (delete_episode st1 auth seriesId episodeId)
  then show ?case by (simp add: delete_episode_B_counter)
qed

lemma steps_B_counter_ids:
  "steps_B dirname st st' \<Longrightarrow> counter_ids (nextSeriesId st) (series_B st) \<Longrightarrow>
   counter_ids (nextSeriesId st') (series_B st')"
proof (induction rule: steps_B.induct)
  case no_request
  then show ?case by simp
next
  case (post_series st1 auth req_files pseudo name desc image' episodes)
  from post_series_B_cases [of dirname st1 auth req_files pseudo name desc image' episodes]
    post_series.IH [OF post_series.prems]
  show ?case by (auto simp add: counter_ids_snoc)
next
  case (delete_series st1 auth id')
  from delete_series.IH [OF delete_series.prems] show ?case
    by (simp add: delete_series_B_counter)
next
  case (post_episode st1 auth id' upl title url pseudo)
  from post_episode.IH [OF post_episode.prems] show ?case
    by (simp add: post_episode_B_counter)
next
  case (delete_episode st1 auth seriesId episodeId)
  from delete_episode.IH [OF delete_episode.prems] show ?case
    by (simp add: delete_episode_B_counter)
qed

lemma reachable_B_counter_ids:
  "reachable_B dirname st \<Longrightarrow> counter_ids (nextSeriesId st) (series_B st)"
proof -
  assume "reachable_B dirname st"
  then obtain fs where s: "steps_B dirname (init_B fs) st" by (auto simp add: reachable_B_def)
  have "counter_ids (nextSeriesId (init_B fs)) (series_B (init_B fs))"
    by (simp add: init_B_def counter_ids_def)
  with s show ?thesis by (rule steps_B_counter_ids)
qed

lemma reachable_B_steps:
  "reachable_B dirname st \<Longrightarrow> steps_B dirname st st' \<Longrightarrow> reachable_B dirname st'"
proof -
  assume r: "reachable_B dirname st" and s: "steps_B dirname st st'"
  from r obtain fs where i: "steps_B dirname (init_B fs) st" by (auto simp add: reachable_B_def)
  from s have "steps_B dirname (init_B fs) st'"
  proof (induction rule: steps_B.induct)
    case no_request
    show ?case by (rule i)
  next
    case (post_series st1 auth req_files pseudo name desc image' episodes)
    then show ?case by (intro steps_B.post_series)
  next
    case (delete_series st1 auth id')
    then show ?case by (intro steps_B.delete_series)
  next
    case (post_episode st1 auth id' upl title url pseudo)
    then show ?case by (intro steps_B.post_episode)
  next
    case (delete_episode st1 auth seriesId episodeId)
    then show ?case by (intro steps_B.delete_episode)
  qed
  then show ?thesis by (auto simp add: reachable_B_def)
qed

lemma finalEpisode_fields:
  "finalEpisode n pseudo fl idx sp = Some e \<Longrightarrow>
   e_id e = show_nat n @ ''-'' @ show_nat (idx + 1) \<and> e_title e = sp_title sp"
  by (auto simp add: finalEpisode_def split: if_splits option.splits)

lemma those_finalEpisode:
  "those (map (\<lambda>(idx, ep). finalEpisode n pseudo fl idx ep) (enumerate i specs)) = Some eps \<Longrightarrow>
   map e_id eps = map (\<lambda>k. show_nat n @ ''-'' @ show_nat (k + 1)) [i..<i + length specs]
   \<and> map e_title eps = map sp_title specs"
proof (induction specs arbitrary: i eps)
  case Nil
  then show ?case by simp
next
  case (Cons sp specs)
  from Cons.prems obtain e es where e: "finalEpisode n pseudo fl i sp = Some e"
    and es: "those (map (\<lambda>(idx, ep). finalEpisode n pseudo fl idx ep) (enumerate (Suc i) specs)) = Some es"
    and eps: "eps = e # es"
    by (auto split: option.splits)
  have u: "[i..<i + length (sp # specs)] = i # [Suc i..<Suc i + length specs]"
    by (simp add: upt_rec)
  from Cons.IH [OF es] finalEpisode_fields [OF e] show ?case
    unfolding u eps by simp
qed

lemma finalEpisodes_ids:
  "finalEpisodes n pseudo fl specs = Some eps \<Longrightarrow>
   map e_id eps = map (\<lambda>k. show_nat n @ ''-'' @ show_nat (k + 1)) [0..<length specs]
   \<and> map e_title eps = map sp_title specs"
  using those_finalEpisode [of n pseudo fl 0 specs eps] by (simp add: finalEpisodes_def)

lemma post_series_B_created:
  assumes "post_series_B dirname st auth fl pseudo name desc image' episodes
           = (SeriesCreated new, st')"
  shows "\<exists>specs eps. episodes = Some specs
      \<and> finalEpisodes (nextSeriesId st) (or_else pseudo []) fl specs = Some eps
      \<and> new = \<lparr>s_id = show_nat (nextSeriesId st), s_name = or_else name [],
                s_desc = or_else desc [], s_image = or_else image' [],
                s_pseudo = or_else pseudo [], s_episodes = eps\<rparr>
      \<and> series_B st' = series_B st @ [new]
      \<and> nextSeriesId st' = nextSeriesId st + 1"
proof -
  have r: "\<And>e s f. fst (reject_B dirname e s f) \<noteq> SeriesCreated new"
    by (simp add: reject_B_def split: sum.splits)
  from assms show ?thesis
    by (auto simp add: post_series_B_def Let_def split: option.splits if_splits
        dest: arg_cong [where f = fst] simp add: r)
qed

lemma minus_not_digit: "list_all is_digit xs \<Longrightarrow> CHR ''-'' \<notin> set xs"
  by (auto simp add: list_all_iff is_digit_def)

lemma takeWhile_upto: "c \<notin> set xs \<Longrightarrow> takeWhile (\<lambda>x. x \<noteq> c) (xs @ c # ys) = xs"
  by (induction xs) auto

lemma split_at_minus:
  assumes "CHR ''-'' \<notin> set xs" and "CHR ''-'' \<notin> set xs'"
    and "xs @ CHR ''-'' # ys = xs' @ CHR ''-'' # ys'"
  shows "xs = xs' \<and> ys = ys'"
proof -
  have "takeWhile (\<lambda>c. c \<noteq> CHR ''-'') (xs @ CHR ''-'' # ys) = xs"
    using assms(1) by (rule takeWhile_upto)
  moreover have "takeWhile (\<lambda>c. c \<noteq> CHR ''-'') (xs' @ CHR ''-'' # ys') = xs'"
    using assms(2) by (rule takeWhile_upto)
  ultimately have "xs = xs'" using assms(3) by simp
  with assms(3) show ?thesis by simp
qed

lemma time_random_id_inj:
  "time_random_id now rnd = time_random_id now' rnd' \<longleftrightarrow> now = now' \<and> rnd = rnd'"
proof
  assume "time_random_id now rnd = time_random_id now' rnd'"
  then have "show_nat now @ CHR ''-'' # show_nat rnd = show_nat now' @ CHR ''-'' # show_nat rnd'"
    by (simp add: time_random_id_def)
  then have "show_nat now = show_nat now' \<and> show_nat rnd = show_nat rnd'"
    by (intro split_at_minus minus_not_digit show_nat_digits)
  then show "now = now' \<and> rnd = rnd'" by (auto dest: show_nat_inj)
next
  assume "now = now' \<and> rnd = rnd'"
  then show "time_random_id now rnd = time_random_id now' rnd'" by simp
qed

lemma show_nat_small:
  "show_nat 0 = ''0''" "show_nat 1 = ''1''" "show_nat 2 = ''2''" "show_nat 3 = ''3''"
  "show_nat (Suc 0) = ''1''" "show_nat (Suc (Suc 0)) = ''2''"
  by code_simp+

lemma ascii_lower_examples:
  "ascii_lower ''Naruto'' = ''naruto''" "ascii_lower ''naruto'' = ''naruto''"
  "ascii_lower ''Bleach'' = ''bleach''"
  by code_simp+

lemma finalEpisodes_example:
  "finalEpisodes n ''bob'' [pilot_file] [pilot_spec, link_spec] = Some (s_episodes (naruto_B (show_nat n) x))"
  by (simp add: finalEpisodes_def finalEpisode_def enumerate_eq_zip pilot_file_def pilot_spec_def
      link_spec_def naruto_B_def show_nat_small upt_rec)

lemma ex_post_series_B:
  "post_series_B dirname st (Some bob) [pilot_file] (Some ''bob'') (Some n) None None
     (Some [pilot_spec, link_spec])
   = (if n = [] then reject_B dirname PseudoAndNameRequired
                       (st\<lparr>files := multer_store_B dirname (files st) pilot_file\<rparr>) [pilot_file]
      else (SeriesCreated (naruto_B (show_nat (nextSeriesId st)) n),
            st\<lparr>files := multer_store_B dirname (files st) pilot_file,
               series_B := series_B st @ [naruto_B (show_nat (nextSeriesId st)) n],
               nextSeriesId := nextSeriesId st + 1\<rparr>))"
  by (simp add: post_series_B_def Let_def or_else_def finalEpisodes_example [of _ n])
     (simp add: naruto_B_def)

lemma load_series_fresh_disk: "load_series fresh_disk = Some []"
  by (simp add: fresh_disk_def load_save_series)

lemma ex_post_series_A_first:
  "post_series_A ascii_lower fresh_disk (Some bob) (Some ''Naruto'') None None 5 6
   = (SeriesCreated narutoA, save_series fresh_disk [narutoA])"
  by (simp add: post_series_A_def load_series_fresh_disk or_else_def Let_def narutoA_def bob_def)

lemma ex_post_series_A_second:
  "post_series_A ascii_lower (save_series fresh_disk [narutoA]) (Some bob) (Some ''Bleach'') None None 5 6
   = (SeriesCreated bleach, save_series (save_series fresh_disk [narutoA]) [narutoA, bleach])"
  by (simp add: post_series_A_def load_save_series or_else_def Let_def narutoA_def bob_def
      bleach_def ascii_lower_examples)

section \<open>Creating a series in the file-based server\<close>

lemma post_series_A_outcomes:
  assumes "load_series fs = Some series"
  shows "snd (post_series_A lc fs auth name desc image' now rnd) = fs
    \<or> (\<exists>new. find (\<lambda>s. lc (s_name s) = lc (s_name new)) series = None
          \<and> post_series_A lc fs auth name desc image' now rnd
              = (SeriesCreated new, save_series fs (series @ [new])))"
  using assms
  by (auto simp add: post_series_A_def Let_def split: option.splits)

lemma post_series_A_created:
  assumes "post_series_A lc fs auth name desc image' now rnd = (SeriesCreated x, fs1)"
  shows "\<exists>series. load_series fs = Some series
      \<and> find (\<lambda>s. lc (s_name s) = lc (s_name x)) series = None
      \<and> fs1 = save_series fs (series @ [x]) \<and> s_name x = or_else name []"
  using assms
  by (auto simp add: post_series_A_def Let_def split: option.splits if_splits)

lemma find_None_filter: "find p xs = None \<Longrightarrow> filter p xs = []"
  by (induction xs) (auto split: if_splits)

section \<open>The example states of the in-memory server\<close>

text \<open>
  The in-memory server reaches each state of the examples in one request: started with the
  cover image and the application's file on disk, it creates a series from the uploaded pilot and
  a second spec without a file.
\<close>

lemma multer_store_B_pilot: "multer_store_B app_dir cover_disk pilot_file = disk_B"
  by (simp add: multer_store_B_def path_join_examples)
     (simp add: pilot_file_def cover_disk_def disk_B_def)

lemma finalEpisodes_examples:
  "finalEpisodes (Suc 0) ''bob'' [pilot_file] [pilot_spec, link_spec] = Some [ep1, ep2]"
  "finalEpisodes (Suc 0) ''bob'' [pilot_file] [pilot_spec, escaping_spec] = Some [ep1, escaping_ep]"
  "finalEpisodes (Suc 0) ''bob'' [pilot_file] [pilot_spec, bare_spec] = Some [ep1, bare_ep]"
  by (simp_all add: finalEpisodes_def finalEpisode_def enumerate_eq_zip pilot_file_def
      pilot_spec_def link_spec_def escaping_spec_def bare_spec_def ep1_def ep2_def escaping_ep_def
      bare_ep_def show_nat_small upt_rec)

lemma memory_B_created:
  "post_series_B app_dir (init_B cover_disk) (Some bob) [pilot_file]
     (Some ''bob'') (Some ''Naruto'') (Some ''desc'') (Some ''/uploads/cover.png'')
     (Some [pilot_spec, link_spec])
   = (SeriesCreated naruto, memory_B)"
  by (simp add: post_series_B_def init_B_def Let_def or_else_def finalEpisodes_examples
      multer_store_B_pilot memory_B_def naruto_def show_nat_small)

lemma escaping_B_created:
  "post_series_B app_dir (init_B cover_disk) (Some bob) [pilot_file]
     (Some ''bob'') (Some ''Escape'') None None (Some [pilot_spec, escaping_spec])
   = (SeriesCreated escaping_series, escaping_B)"
  by (simp add: post_series_B_def init_B_def Let_def or_else_def finalEpisodes_examples
      multer_store_B_pilot escaping_B_def escaping_series_def show_nat_small)

lemma bare_B_created:
  "post_series_B app_dir (init_B cover_disk) (Some bob) [pilot_file]
     (Some ''bob'') (Some ''Bare'') None None (Some [pilot_spec, bare_spec])
   = (SeriesCreated bare_series, bare_B)"
  by (simp add: post_series_B_def init_B_def Let_def or_else_def finalEpisodes_examples
      multer_store_B_pilot bare_B_def bare_series_def show_nat_small)

lemma init_B_reachable: "reachable_B dirname (init_B fs)"
  unfolding reachable_B_def by (rule exI [of _ fs]) (rule steps_B.no_request)

lemma post_series_B_reachable:
  "post_series_B dirname (init_B fs) auth req_files pseudo name desc image' episodes = (r, st)
   \<Longrightarrow> reachable_B dirname st"
proof -
  assume a: "post_series_B dirname (init_B fs) auth req_files pseudo name desc image' episodes
             = (r, st)"
  have "steps_B dirname (init_B fs)
          (snd (post_series_B dirname (init_B fs) auth req_files pseudo name desc image' episodes))"
    by (intro steps_B.post_series steps_B.no_request)
  with a show ?thesis by (auto simp add: reachable_B_def)
qed

lemma memory_B_reachable: "reachable_B app_dir memory_B"
  using memory_B_created by (rule post_series_B_reachable)

lemma escaping_B_reachable: "reachable_B app_dir escaping_B"
  using escaping_B_created by (rule post_series_B_reachable)

lemma bare_B_reachable: "reachable_B app_dir bare_B"
  using bare_B_created by (rule post_series_B_reachable)
section \<open>The claims\<close>

subsection \<open>Deleting a series without the right to\<close>

text \<open>
  C7. A caller whose token is valid but for whom the authorization check fails gets 403 from
  \<^verbatim>\<open>DELETE /api/series/:id\<close>, and nothing changes: the file-based server checks \<^verbatim>\<open>isAdmin(req)\<close>
  before it reads the store, so the whole file system (the collection and every uploaded file)
  is as before; the in-memory server's \<^verbatim>\<open>adminMiddleware\<close> answers before the handler runs, so
  its collection, its counter and its files are as before.
\<close>

theorem delete_series_forbidden:
  "(\<not> isAdmin env user \<longrightarrow> delete_series_A env fs (Some user) id' = (Error Forbidden, fs))
   \<and> (\<not> p_isAdmin user
        \<longrightarrow> delete_series_B dirname st (Some user) id' = (Error Forbidden, st))
   \<and> status Forbidden = 403"
  by (simp add: delete_series_A_def delete_series_B_def)

text \<open>
  C7, on the example: \<open>bob\<close> is not the administrator of either server; the store of the
  file-based server and the state of the in-memory server are what they were.
\<close>

theorem delete_series_forbidden_witness:
  "\<not> isAdmin None bob \<and> \<not> p_isAdmin bob
   \<and> delete_series_A None disk_A (Some bob) ''1'' = (Error Forbidden, disk_A)
   \<and> load_series disk_A = Some [naruto]
   \<and> delete_series_B app_dir memory_B (Some bob) ''1'' = (Error Forbidden, memory_B)
   \<and> series_B memory_B = [naruto]"
  using delete_series_forbidden [where env = None and user = bob and fs = disk_A and id' = "''1''"
      and dirname = app_dir and st = memory_B]
  by (simp add: isAdmin_def ADMIN_USERNAME_def or_else_def bob_def disk_A_def load_save_series
      memory_B_def)

subsection \<open>Persisting and reloading\<close>

text \<open>
  C9. What \<^verbatim>\<open>writeJson\<close> stores, \<^verbatim>\<open>readJson\<close> reads back: for every JSON array, and so for
  the encoding of every collection of series, the value read from the file is the value
  written, whatever the file system held before and whatever the fallback is. Read as records,
  the collection is the one that was saved: the same series in the same order, each with the
  same fields and the same episodes in the same order.
\<close>

theorem persist_then_reload:
  "readJson (writeJson fs file (JArr vs)) file fallback = JArr vs
   \<and> readJson (writeJson fs file (collection_to_json c)) file fallback = collection_to_json c
   \<and> load_series (save_series fs c) = Some c"
  by (simp add: readJson_writeJson load_save_series collection_to_json_def)

subsection \<open>Where a source points: the prefix decides\<close>

text \<open>
  C10. An episode's media is the string \<open>e_src\<close>, with no tag beside it. An episode added with an
  uploaded file gets \<^verbatim>\<open>/uploads/\<close> followed by the generated file name, in both servers; one
  added with a URL of the caller's gets that URL unchanged; and the stored series holds the new
  episode last. The same holds for each episode the in-memory server builds when it creates a
  series: the file name of the matching upload for a spec with a file, the spec's own source
  otherwise. The delete handlers of the in-memory server that succeed found a source, and they
  unlink exactly when it starts with \<^verbatim>\<open>/uploads/\<close>, the file that \<^verbatim>\<open>path.join(__dirname, src)\<close>
  names: deleting an episode whose source has the prefix leaves the files as they were but for
  that path, and as they were altogether when the source has not; deleting a series unlinks
  those paths for the sources with the prefix of all its episodes and nothing else.
\<close>

theorem src_prefix_decides:
  "(post_episode_A fs0 (Some user) id' (Some f) title type src now rnd = (SuccessWithSeries s', fs')
      \<longrightarrow> e_src (last (s_episodes s')) = Some (''/uploads/'' @ filename f)
          \<and> map_option (find (\<lambda>x. s_id x = id')) (load_series fs') = Some (Some s'))
   \<and> (post_episode_A fs0 (Some user) id' None title type src now rnd = (SuccessWithSeries s', fs')
      \<longrightarrow> src \<noteq> None \<and> e_src (last (s_episodes s')) = src
          \<and> map_option (find (\<lambda>x. s_id x = id')) (load_series fs') = Some (Some s'))
   \<and> (post_episode_B dirname st0 (Some user) id' (Some f) title url pseudo
         = (EpisodeCreated ep, st')
      \<longrightarrow> e_src ep = Some (''/uploads/'' @ filename f)
          \<and> map_option (last \<circ> s_episodes) (find (\<lambda>x. s_id x = id') (series_B st')) = Some ep)
   \<and> (post_episode_B dirname st0 (Some user) id' None title url pseudo = (EpisodeCreated ep, st')
      \<longrightarrow> url \<noteq> None \<and> e_src ep = url
          \<and> map_option (last \<circ> s_episodes) (find (\<lambda>x. s_id x = id') (series_B st')) = Some ep)
   \<and> (finalEpisode nextId who req_files idx sp = Some e0
      \<longrightarrow> (if sp_hasFile sp
           then \<exists>file'. find (\<lambda>x. fieldname x = ''episode_'' @ sp_index sp) req_files = Some file'
                  \<and> e_src e0 = Some (''/uploads/'' @ filename file')
           else e_src e0 = sp_src sp))
   \<and> (delete_episode_B dirname st (Some user) id' epId = (Success, st')
      \<longrightarrow> (\<exists>s e x. find (\<lambda>x. s_id x = id') (series_B st) = Some s
                \<and> find (\<lambda>x. e_id x = epId) (s_episodes s) = Some e
                \<and> e_src e = Some x
                \<and> files st' = (if startsWith x ''/uploads/''
                               then (files st)(path_join dirname x := None) else files st)))
   \<and> (delete_series_B dirname st (Some user) id' = (Success, st')
      \<longrightarrow> (\<exists>s. find (\<lambda>x. s_id x = id') (series_B st) = Some s
                \<and> files st' = (\<lambda>p. if p \<in> unlink_targets dirname (s_episodes s) then None
                                    else files st p)))
   \<and> (p \<in> unlink_targets dirname eps
      \<longleftrightarrow> (\<exists>e \<in> set eps. \<exists>x. e_src e = Some x \<and> startsWith x ''/uploads/''
                               \<and> p = path_join dirname x))"
proof (intro conjI impI)
  assume a: "post_episode_A fs0 (Some user) id' (Some f) title type src now rnd = (SuccessWithSeries s', fs')"
  then show "e_src (last (s_episodes s')) = Some (''/uploads/'' @ filename f)"
    by (auto simp add: post_episode_A_def Let_def split: option.splits if_splits)
  from a show "map_option (find (\<lambda>x. s_id x = id')) (load_series fs') = Some (Some s')"
    by (auto simp add: post_episode_A_def Let_def load_save_series find_update_first_id
        split: option.splits if_splits)
next
  assume a: "post_episode_A fs0 (Some user) id' None title type src now rnd = (SuccessWithSeries s', fs')"
  then show "src \<noteq> None"
    by (auto simp add: post_episode_A_def Let_def or_else_def split: option.splits if_splits)
  from a show "e_src (last (s_episodes s')) = src"
    by (auto simp add: post_episode_A_def Let_def or_else_def split: option.splits if_splits)
  from a show "map_option (find (\<lambda>x. s_id x = id')) (load_series fs') = Some (Some s')"
    by (auto simp add: post_episode_A_def Let_def load_save_series find_update_first_id
        split: option.splits if_splits)
next
  assume a: "post_episode_B dirname st0 (Some user) id' (Some f) title url pseudo
             = (EpisodeCreated ep, st')"
  then show "e_src ep = Some (''/uploads/'' @ filename f)"
    by (auto simp add: post_episode_B_def Let_def split: option.splits if_splits sum.splits)
  from a show "map_option (last \<circ> s_episodes) (find (\<lambda>x. s_id x = id') (series_B st')) = Some ep"
    by (auto simp add: post_episode_B_def Let_def find_update_first_id
        split: option.splits if_splits sum.splits)
next
  assume a: "post_episode_B dirname st0 (Some user) id' None title url pseudo
             = (EpisodeCreated ep, st')"
  then show "url \<noteq> None"
    by (auto simp add: post_episode_B_def Let_def or_else_def split: option.splits if_splits sum.splits)
  from a show "e_src ep = url"
    by (auto simp add: post_episode_B_def Let_def or_else_def split: option.splits if_splits sum.splits)
  from a show "map_option (last \<circ> s_episodes) (find (\<lambda>x. s_id x = id') (series_B st')) = Some ep"
    by (auto simp add: post_episode_B_def Let_def find_update_first_id
        split: option.splits if_splits sum.splits)
next
  assume "finalEpisode nextId who req_files idx sp = Some e0"
  then show "if sp_hasFile sp
           then \<exists>file'. find (\<lambda>x. fieldname x = ''episode_'' @ sp_index sp) req_files = Some file'
                  \<and> e_src e0 = Some (''/uploads/'' @ filename file')
           else e_src e0 = sp_src sp"
    by (auto simp add: finalEpisode_def split: option.splits if_splits)
next
  assume "delete_episode_B dirname st (Some user) id' epId = (Success, st')"
  then show "\<exists>s e x. find (\<lambda>x. s_id x = id') (series_B st) = Some s
                \<and> find (\<lambda>x. e_id x = epId) (s_episodes s) = Some e
                \<and> e_src e = Some x
                \<and> files st' = (if startsWith x ''/uploads/''
                               then (files st)(path_join dirname x := None) else files st)"
    by (auto simp add: delete_episode_B_def unlink_upload_eq split: option.splits if_splits)
next
  assume "delete_series_B dirname st (Some user) id' = (Success, st')"
  then show "\<exists>s. find (\<lambda>x. s_id x = id') (series_B st) = Some s
                \<and> files st' = (\<lambda>p. if p \<in> unlink_targets dirname (s_episodes s) then None
                                    else files st p)"
    by (auto simp add: delete_series_B_def unlink_episodes_eq
        split: option.splits if_splits sum.splits)
next
  show "p \<in> unlink_targets dirname eps
      \<longleftrightarrow> (\<exists>e \<in> set eps. \<exists>x. e_src e = Some x \<and> startsWith x ''/uploads/''
                               \<and> p = path_join dirname x)"
    by (rule unlink_targets_iff)
qed

text \<open>
  C10, at concrete requests: an upload and a link added to the series of the example in each
  server (the part is named \<^verbatim>\<open>file\<close> for the file-based server and \<^verbatim>\<open>video\<close> for the in-memory
  one), the two episodes the in-memory server builds from a spec with a file and a spec with a
  link, and three deletions by an administrator in the in-memory server, which runs in
  \<^verbatim>\<open>/srv/app\<close>. The last deletion is of a series whose second source,
  \<^verbatim>\<open>/uploads/../keep.txt\<close>, has the prefix and names a file outside the upload directory: that
  file goes too.
\<close>

theorem src_prefix_decides_witness:
  "fst (post_episode_A disk_A (Some bob) ''1'' (Some clip) None None None 5 6)
     = SuccessWithSeries (naruto\<lparr>s_episodes := [ep1, ep2, uploaded_ep]\<rparr>)
   \<and> e_src uploaded_ep = Some (''/uploads/'' @ filename clip)
   \<and> fst (post_episode_A disk_A (Some bob) ''1'' None (Some ''Third'') None
             (Some ''https://cdn.example/3.mp4'') 5 6)
     = SuccessWithSeries (naruto\<lparr>s_episodes := [ep1, ep2, linked_ep]\<rparr>)
   \<and> e_src linked_ep = Some ''https://cdn.example/3.mp4''
   \<and> fieldname clip_B = ''video''
   \<and> fst (post_episode_B app_dir memory_B (Some bob) ''1'' (Some clip_B) None None None)
     = EpisodeCreated uploaded_ep_B
   \<and> e_src uploaded_ep_B = Some (''/uploads/'' @ filename clip_B)
   \<and> fst (post_episode_B app_dir memory_B (Some bob) ''1'' None (Some ''Third'')
             (Some ''https://cdn.example/3.mp4'') None)
     = EpisodeCreated linked_ep_B
   \<and> e_src linked_ep_B = Some ''https://cdn.example/3.mp4''
   \<and> finalEpisode 1 ''bob'' [pilot_file] 0 pilot_spec = Some ep1
   \<and> sp_hasFile pilot_spec \<and> e_src ep1 = Some (''/uploads/'' @ filename pilot_file)
   \<and> finalEpisode 1 ''bob'' [pilot_file] 1 link_spec = Some ep2
   \<and> sp_hasFile link_spec = False \<and> e_src ep2 = sp_src link_spec
   \<and> fst (delete_episode_B app_dir memory_B (Some root) ''1'' ''1-1'') = Success
   \<and> files (snd (delete_episode_B app_dir memory_B (Some root) ''1'' ''1-1''))
     = disk_B(''/srv/app/uploads/video-1-2.mp4'' := None)
   \<and> startsWith ''/uploads/video-1-2.mp4'' ''/uploads/''
   \<and> files (snd (delete_episode_B app_dir memory_B (Some root) ''1'' ''1-1''))
     = (files memory_B)(path_join app_dir ''/uploads/video-1-2.mp4'' := None)
   \<and> fst (delete_series_B app_dir memory_B (Some root) ''1'') = Success
   \<and> unlink_targets app_dir [ep1, ep2] = {''/srv/app/uploads/video-1-2.mp4''}
   \<and> files (snd (delete_series_B app_dir memory_B (Some root) ''1''))
     = (\<lambda>p. if p \<in> {''/srv/app/uploads/video-1-2.mp4''} then None else disk_B p)
   \<and> fst (delete_series_B app_dir escaping_B (Some root) ''1'') = Success
   \<and> unlink_targets app_dir [ep1, escaping_ep]
     = {''/srv/app/uploads/video-1-2.mp4'', ''/srv/app/keep.txt''}
   \<and> files (snd (delete_series_B app_dir escaping_B (Some root) ''1''))
     = (\<lambda>p. if p \<in> {''/srv/app/uploads/video-1-2.mp4'', ''/srv/app/keep.txt''} then None
             else disk_B p)"
proof -
  have h1: "finalEpisode 1 ''bob'' [pilot_file] 0 pilot_spec = Some ep1"
    by (simp add: finalEpisode_def pilot_file_def pilot_spec_def ep1_def show_nat_small)
  have h2: "finalEpisode 1 ''bob'' [pilot_file] 1 link_spec = Some ep2"
    by (simp add: finalEpisode_def link_spec_def ep2_def show_nat_small)
  have h3: "sp_hasFile pilot_spec" "sp_hasFile link_spec = False"
    by (simp_all add: pilot_spec_def link_spec_def)
  have h4: "find (\<lambda>x. fieldname x = ''episode_'' @ sp_index pilot_spec) [pilot_file] = Some pilot_file"
    by (simp add: pilot_file_def pilot_spec_def)
  from src_prefix_decides [where nextId = 1 and who = "''bob''" and req_files = "[pilot_file]"
      and idx = 0 and sp = pilot_spec and ?e0.0 = ep1] h1 h3 h4
  have h5: "e_src ep1 = Some (''/uploads/'' @ filename pilot_file)"
    by auto
  from src_prefix_decides [where nextId = 1 and who = "''bob''" and req_files = "[pilot_file]"
      and idx = 1 and sp = link_spec and ?e0.0 = ep2] h2 h3
  have h6: "e_src ep2 = sp_src link_spec"
    by auto
  have a: "e_src (last (s_episodes (naruto\<lparr>s_episodes := [ep1, ep2, uploaded_ep]\<rparr>)))
           = Some (''/uploads/'' @ filename clip)"
    using src_prefix_decides [where ?fs0.0 = disk_A and user = bob and id' = "''1''" and f = clip
        and title = None and type = None and src = None and now = 5 and rnd = 6
        and s' = "naruto\<lparr>s_episodes := [ep1, ep2, uploaded_ep]\<rparr>"
        and fs' = "save_series (multer_store disk_A clip)
                     [naruto\<lparr>s_episodes := [ep1, ep2, uploaded_ep]\<rparr>]"]
      ex_post_episode_A_file
    by blast
  have b: "e_src (last (s_episodes (naruto\<lparr>s_episodes := [ep1, ep2, linked_ep]\<rparr>)))
           = Some ''https://cdn.example/3.mp4''"
    using src_prefix_decides [where ?fs0.0 = disk_A and user = bob and id' = "''1''"
        and title = "Some ''Third''" and type = None
        and src = "Some ''https://cdn.example/3.mp4''" and now = 5 and rnd = 6
        and s' = "naruto\<lparr>s_episodes := [ep1, ep2, linked_ep]\<rparr>"
        and fs' = "save_series disk_A [naruto\<lparr>s_episodes := [ep1, ep2, linked_ep]\<rparr>]"]
      ex_post_episode_A_url
    by blast
  have c: "e_src uploaded_ep_B = Some (''/uploads/'' @ filename clip_B)"
    using src_prefix_decides [where dirname = app_dir and ?st0.0 = memory_B and user = bob
        and id' = "''1''" and f = clip_B
        and title = None and url = None and pseudo = None and ep = uploaded_ep_B
        and st' = "memory_B\<lparr>files := multer_store_B app_dir disk_B clip_B,
                series_B := [naruto\<lparr>s_episodes := [ep1, ep2, uploaded_ep_B]\<rparr>]\<rparr>"]
      ex_post_episode_B_file
    by blast
  have d: "e_src linked_ep_B = Some ''https://cdn.example/3.mp4''"
    using src_prefix_decides [where dirname = app_dir and ?st0.0 = memory_B and user = bob
        and id' = "''1''"
        and title = "Some ''Third''" and url = "Some ''https://cdn.example/3.mp4''"
        and pseudo = None and ep = linked_ep_B
        and st' = "memory_B\<lparr>series_B := [naruto\<lparr>s_episodes := [ep1, ep2, linked_ep_B]\<rparr>]\<rparr>"]
      ex_post_episode_B_url
    by blast
  have t1: "unlink_targets app_dir [ep1, ep2] = {''/srv/app/uploads/video-1-2.mp4''}"
    by (simp add: unlink_targets_Cons unlink_targets_Nil ep1_def ep2_def startsWith_def
        path_join_examples)
  have t2: "unlink_targets app_dir [ep1, escaping_ep]
            = {''/srv/app/uploads/video-1-2.mp4'', ''/srv/app/keep.txt''}"
    by (auto simp add: unlink_targets_Cons unlink_targets_Nil ep1_def escaping_ep_def
        startsWith_def path_join_examples)
  have "\<exists>s. find (\<lambda>x. s_id x = ''1'') (series_B memory_B) = Some s
          \<and> files (memory_B\<lparr>files := disk_B(''/srv/app/uploads/video-1-2.mp4'' := None),
                              series_B := []\<rparr>)
              = (\<lambda>p. if p \<in> unlink_targets app_dir (s_episodes s) then None
                      else files memory_B p)"
    using src_prefix_decides [where dirname = app_dir and st = memory_B and user = root
        and id' = "''1''"
        and st' = "memory_B\<lparr>files := disk_B(''/srv/app/uploads/video-1-2.mp4'' := None),
                            series_B := []\<rparr>", THEN conjunct2, THEN conjunct2,
        THEN conjunct2, THEN conjunct2, THEN conjunct2, THEN conjunct2, THEN conjunct1, THEN mp,
        OF ex_delete_series_B]
    by simp
  then obtain s1 where s1: "find (\<lambda>x. s_id x = ''1'') (series_B memory_B) = Some s1"
    and f1: "files (memory_B\<lparr>files := disk_B(''/srv/app/uploads/video-1-2.mp4'' := None),
                              series_B := []\<rparr>)
              = (\<lambda>p. if p \<in> unlink_targets app_dir (s_episodes s1) then None
                      else files memory_B p)"
    by blast
  from s1 have n1: "s1 = naruto" by (simp add: memory_B_def naruto_def)
  have fm: "files memory_B = disk_B" by (simp add: memory_B_def)
  have e: "files (snd (delete_series_B app_dir memory_B (Some root) ''1''))
           = (\<lambda>p. if p \<in> unlink_targets app_dir [ep1, ep2] then None else disk_B p)"
    unfolding ex_delete_series_B snd_conv f1 n1 by (simp add: fm naruto_def cong: if_cong)
  have "\<exists>s. find (\<lambda>x. s_id x = ''1'') (series_B escaping_B) = Some s
          \<and> files (escaping_B\<lparr>files := disk_B(''/srv/app/uploads/video-1-2.mp4'' := None,
                                                ''/srv/app/keep.txt'' := None),
                              series_B := []\<rparr>)
              = (\<lambda>p. if p \<in> unlink_targets app_dir (s_episodes s) then None
                      else files escaping_B p)"
    using src_prefix_decides [where dirname = app_dir and st = escaping_B and user = root
        and id' = "''1''"
        and st' = "escaping_B\<lparr>files := disk_B(''/srv/app/uploads/video-1-2.mp4'' := None,
                                                ''/srv/app/keep.txt'' := None),
                              series_B := []\<rparr>", THEN conjunct2, THEN conjunct2,
        THEN conjunct2, THEN conjunct2, THEN conjunct2, THEN conjunct2, THEN conjunct1, THEN mp,
        OF ex_delete_series_escaping]
    by simp
  then obtain s2 where s2: "find (\<lambda>x. s_id x = ''1'') (series_B escaping_B) = Some s2"
    and f2: "files (escaping_B\<lparr>files := disk_B(''/srv/app/uploads/video-1-2.mp4'' := None,
                                                ''/srv/app/keep.txt'' := None),
                              series_B := []\<rparr>)
              = (\<lambda>p. if p \<in> unlink_targets app_dir (s_episodes s2) then None
                      else files escaping_B p)"
    by blast
  from s2 have n2: "s2 = escaping_series" by (simp add: escaping_B_def escaping_series_def)
  have fe: "files escaping_B = disk_B" by (simp add: escaping_B_def)
  have e2: "files (snd (delete_series_B app_dir escaping_B (Some root) ''1''))
           = (\<lambda>p. if p \<in> unlink_targets app_dir [ep1, escaping_ep] then None else disk_B p)"
    unfolding ex_delete_series_escaping snd_conv f2 n2
    by (simp add: fe escaping_series_def cong: if_cong)
  from a have a': "e_src uploaded_ep = Some (''/uploads/'' @ filename clip)" by simp
  from b have b': "e_src linked_ep = Some ''https://cdn.example/3.mp4''" by simp
  have g: "fst (delete_series_B app_dir memory_B (Some root) ''1'') = Success"
    by (simp add: ex_delete_series_B)
  have g2: "fst (delete_series_B app_dir escaping_B (Some root) ''1'') = Success"
    by (simp add: ex_delete_series_escaping)
  have v: "fieldname clip_B = ''video''" by (simp add: clip_B_def)
  have p1: "fst (post_episode_A disk_A (Some bob) ''1'' (Some clip) None None None 5 6)
     = SuccessWithSeries (naruto\<lparr>s_episodes := [ep1, ep2, uploaded_ep]\<rparr>)"
    by (simp add: ex_post_episode_A_file)
  have p2: "fst (post_episode_A disk_A (Some bob) ''1'' None (Some ''Third'') None
             (Some ''https://cdn.example/3.mp4'') 5 6)
     = SuccessWithSeries (naruto\<lparr>s_episodes := [ep1, ep2, linked_ep]\<rparr>)"
    by (simp add: ex_post_episode_A_url)
  have p3: "fst (post_episode_B app_dir memory_B (Some bob) ''1'' (Some clip_B) None None None)
     = EpisodeCreated uploaded_ep_B"
    by (simp add: ex_post_episode_B_file)
  have p4: "fst (post_episode_B app_dir memory_B (Some bob) ''1'' None (Some ''Third'')
             (Some ''https://cdn.example/3.mp4'') None)
     = EpisodeCreated linked_ep_B"
    by (simp add: ex_post_episode_B_url)
  have "\<exists>s e x. find (\<lambda>x. s_id x = ''1'') (series_B memory_B) = Some s
          \<and> find (\<lambda>x. e_id x = ''1-1'') (s_episodes s) = Some e \<and> e_src e = Some x
          \<and> files (memory_B\<lparr>files := disk_B(''/srv/app/uploads/video-1-2.mp4'' := None),
                              series_B := [naruto\<lparr>s_episodes := [ep2]\<rparr>]\<rparr>)
              = (if startsWith x ''/uploads/''
                 then (files memory_B)(path_join app_dir x := None) else files memory_B)"
    using src_prefix_decides [where dirname = app_dir and st = memory_B and user = root
        and id' = "''1''" and epId = "''1-1''"
        and st' = "memory_B\<lparr>files := disk_B(''/srv/app/uploads/video-1-2.mp4'' := None),
                            series_B := [naruto\<lparr>s_episodes := [ep2]\<rparr>]\<rparr>",
        THEN conjunct2, THEN conjunct2, THEN conjunct2, THEN conjunct2, THEN conjunct2,
        THEN conjunct1, THEN mp, OF ex_delete_episode_B]
    by simp
  then obtain s3 e3 x3 where s3: "find (\<lambda>x. s_id x = ''1'') (series_B memory_B) = Some s3"
    and e3: "find (\<lambda>x. e_id x = ''1-1'') (s_episodes s3) = Some e3"
    and x3: "e_src e3 = Some x3"
    and f3: "files (memory_B\<lparr>files := disk_B(''/srv/app/uploads/video-1-2.mp4'' := None),
                              series_B := [naruto\<lparr>s_episodes := [ep2]\<rparr>]\<rparr>)
              = (if startsWith x3 ''/uploads/''
                 then (files memory_B)(path_join app_dir x3 := None) else files memory_B)"
    by blast
  from s3 have "s_episodes s3 = [ep1, ep2]" by (auto simp add: memory_B_def naruto_def)
  with e3 have "e3 = ep1" by (simp add: ep1_def)
  with x3 have x3': "x3 = ''/uploads/video-1-2.mp4''" by (simp add: ep1_def)
  have p5: "fst (delete_episode_B app_dir memory_B (Some root) ''1'' ''1-1'') = Success"
    "files (snd (delete_episode_B app_dir memory_B (Some root) ''1'' ''1-1''))
     = disk_B(''/srv/app/uploads/video-1-2.mp4'' := None)"
    by (simp_all add: ex_delete_episode_B)
  from f3 have p6: "startsWith ''/uploads/video-1-2.mp4'' ''/uploads/''
    \<and> files (snd (delete_episode_B app_dir memory_B (Some root) ''1'' ''1-1''))
        = (files memory_B)(path_join app_dir ''/uploads/video-1-2.mp4'' := None)"
    unfolding x3' by (simp add: ex_delete_episode_B startsWith_def)
  from e t1 have e': "files (snd (delete_series_B app_dir memory_B (Some root) ''1''))
     = (\<lambda>p. if p \<in> {''/srv/app/uploads/video-1-2.mp4''} then None else disk_B p)"
    by (simp only:)
  from e2 t2 have e2': "files (snd (delete_series_B app_dir escaping_B (Some root) ''1''))
     = (\<lambda>p. if p \<in> {''/srv/app/uploads/video-1-2.mp4'', ''/srv/app/keep.txt''} then None
             else disk_B p)"
    by (simp only:)
  from p1 a' p2 b' v p3 c p4 d h1 h3 h5 h2 h6 p5 p6 g t1 e' g2 t2 e2' show ?thesis
    by blast
qed

subsection \<open>Deleting a series\<close>

text \<open>
  C3, as the in-memory server does it, for an administrator and a series that is in the
  collection. When every episode of the series has a source, \<^verbatim>\<open>DELETE /api/series/:id\<close>
  succeeds and takes the record out of the collection; for each episode whose source starts
  with \<^verbatim>\<open>/uploads/\<close> no file remains at the path \<^verbatim>\<open>path.join(__dirname, src)\<close>, and every other path
  holds what it held before: the files that other sources name, and the cover image. For an
  episode made from an upload, whose source is \<^verbatim>\<open>/uploads/\<close> followed by the generated file name,
  that path is the upload's own \<^verbatim>\<open>file.path\<close>, where multer wrote it. When an episode of the series
  has no source, the handler throws at the first such episode: the answer is 500, the record
  stays in the collection, and the files of the episodes before that one have been unlinked
  all the same.
\<close>

theorem delete_series_B_cascade:
  assumes "p_isAdmin user" and "find (\<lambda>x. s_id x = id') (series_B st) = Some s"
  shows "(list_all (\<lambda>ep. e_src ep \<noteq> None) (s_episodes s) \<longrightarrow>
            delete_series_B dirname st (Some user) id'
            = (Success,
               st\<lparr>files := (\<lambda>p. if p \<in> unlink_targets dirname (s_episodes s) then None
                                  else files st p),
                  series_B := remove_first (\<lambda>x. s_id x = id') (series_B st)\<rparr>))
    \<and> (\<not> list_all (\<lambda>ep. e_src ep \<noteq> None) (s_episodes s) \<longrightarrow>
            delete_series_B dirname st (Some user) id'
            = (Error ServerError,
               st\<lparr>files := (\<lambda>p. if p \<in> unlink_targets dirname (with_src (s_episodes s))
                                  then None else files st p)\<rparr>))
    \<and> status ServerError = 500
    \<and> (\<forall>p eps. p \<in> unlink_targets dirname eps
          \<longleftrightarrow> (\<exists>ep \<in> set eps. \<exists>src. e_src ep = Some src \<and> startsWith src ''/uploads/''
                                      \<and> p = path_join dirname src))
    \<and> (\<forall>f. dirname \<noteq> [] \<and> filename f \<noteq> []
          \<longrightarrow> path_join dirname (''/uploads/'' @ filename f) = file_path_B dirname f)"
proof -
  have "\<forall>f. dirname \<noteq> [] \<and> filename f \<noteq> []
          \<longrightarrow> path_join dirname (''/uploads/'' @ filename f) = file_path_B dirname f"
    using file_path_B_src [of dirname] by blast
  with assms show ?thesis
    by (simp add: delete_series_B_def unlink_episodes_eq unlink_targets_iff del: append.simps)
qed

text \<open>
  C3, on three series of one uploaded episode and a second episode each, in states the server
  reaches when it runs in \<^verbatim>\<open>/srv/app\<close>. With a link as the second source, the uploaded file goes
  and the cover image stays. With \<^verbatim>\<open>/uploads/../keep.txt\<close> as the second source, the application's
  file \<^verbatim>\<open>/srv/app/keep.txt\<close> goes as well. With no second source, the answer is 500, the series
  is still there and the uploaded file is gone.
\<close>

theorem delete_series_B_cascade_witness:
  "p_isAdmin root
   \<and> app_dir \<noteq> [] \<and> filename pilot_file \<noteq> []
   \<and> e_src ep1 = Some (''/uploads/'' @ filename pilot_file)
   \<and> path_join app_dir (''/uploads/'' @ filename pilot_file) = file_path_B app_dir pilot_file
   \<and> file_path_B app_dir pilot_file = ''/srv/app/uploads/video-1-2.mp4''
   \<and> reachable_B app_dir memory_B
   \<and> find (\<lambda>x. s_id x = ''1'') (series_B memory_B) = Some naruto
   \<and> list_all (\<lambda>ep. e_src ep \<noteq> None) (s_episodes naruto)
   \<and> unlink_targets app_dir (s_episodes naruto) = {''/srv/app/uploads/video-1-2.mp4''}
   \<and> files memory_B ''/srv/app/uploads/video-1-2.mp4'' = Some ''video''
   \<and> delete_series_B app_dir memory_B (Some root) ''1''
       = (Success, memory_B\<lparr>files := disk_B(''/srv/app/uploads/video-1-2.mp4'' := None),
                              series_B := []\<rparr>)
   \<and> (disk_B(''/srv/app/uploads/video-1-2.mp4'' := None)) ''/srv/app/uploads/cover.png''
       = Some ''png''
   \<and> reachable_B app_dir escaping_B
   \<and> find (\<lambda>x. s_id x = ''1'') (series_B escaping_B) = Some escaping_series
   \<and> list_all (\<lambda>ep. e_src ep \<noteq> None) (s_episodes escaping_series)
   \<and> unlink_targets app_dir (s_episodes escaping_series)
       = {''/srv/app/uploads/video-1-2.mp4'', ''/srv/app/keep.txt''}
   \<and> files escaping_B ''/srv/app/keep.txt'' = Some ''kept''
   \<and> delete_series_B app_dir escaping_B (Some root) ''1''
       = (Success, escaping_B\<lparr>files := disk_B(''/srv/app/uploads/video-1-2.mp4'' := None,
                                                  ''/srv/app/keep.txt'' := None),
                                series_B := []\<rparr>)
   \<and> reachable_B app_dir bare_B
   \<and> find (\<lambda>x. s_id x = ''1'') (series_B bare_B) = Some bare_series
   \<and> \<not> list_all (\<lambda>ep. e_src ep \<noteq> None) (s_episodes bare_series)
   \<and> unlink_targets app_dir (with_src (s_episodes bare_series))
       = {''/srv/app/uploads/video-1-2.mp4''}
   \<and> delete_series_B app_dir bare_B (Some root) ''1''
       = (Error ServerError, bare_B\<lparr>files := disk_B(''/srv/app/uploads/video-1-2.mp4'' := None)\<rparr>)
   \<and> series_B bare_B = [bare_series]"
proof -
  have a: "p_isAdmin root" by (simp add: root_def)
  have b1: "find (\<lambda>x. s_id x = ''1'') (series_B memory_B) = Some naruto"
    by (simp add: memory_B_def naruto_def)
  have b2: "find (\<lambda>x. s_id x = ''1'') (series_B escaping_B) = Some escaping_series"
    by (simp add: escaping_B_def escaping_series_def)
  have b3: "find (\<lambda>x. s_id x = ''1'') (series_B bare_B) = Some bare_series"
    by (simp add: bare_B_def bare_series_def)
  have c1: "list_all (\<lambda>ep. e_src ep \<noteq> None) (s_episodes naruto)"
    by (simp add: naruto_def ep1_def ep2_def)
  have c2: "list_all (\<lambda>ep. e_src ep \<noteq> None) (s_episodes escaping_series)"
    by (simp add: escaping_series_def ep1_def escaping_ep_def)
  have c3: "\<not> list_all (\<lambda>ep. e_src ep \<noteq> None) (s_episodes bare_series)"
    by (simp add: bare_series_def ep1_def bare_ep_def)
  have t1: "unlink_targets app_dir (s_episodes naruto) = {''/srv/app/uploads/video-1-2.mp4''}"
    by (simp add: naruto_def unlink_targets_Cons unlink_targets_Nil ep1_def ep2_def
        startsWith_def path_join_examples)
  have t2: "unlink_targets app_dir (s_episodes escaping_series)
       = {''/srv/app/uploads/video-1-2.mp4'', ''/srv/app/keep.txt''}"
    by (auto simp add: escaping_series_def unlink_targets_Cons unlink_targets_Nil ep1_def
        escaping_ep_def startsWith_def path_join_examples)
  have t3: "unlink_targets app_dir (with_src (s_episodes bare_series))
       = {''/srv/app/uploads/video-1-2.mp4''}"
    by (simp add: bare_series_def with_src_def unlink_targets_Cons unlink_targets_Nil ep1_def
        bare_ep_def startsWith_def path_join_examples)
  from delete_series_B_cascade [OF a b1, of app_dir] c1
  have d1: "delete_series_B app_dir memory_B (Some root) ''1''
       = (Success,
          memory_B\<lparr>files := (\<lambda>p. if p \<in> unlink_targets app_dir (s_episodes naruto) then None
                                   else files memory_B p),
                    series_B := remove_first (\<lambda>x. s_id x = ''1'') (series_B memory_B)\<rparr>)"
    by blast
  from delete_series_B_cascade [OF a b2, of app_dir] c2
  have d2: "delete_series_B app_dir escaping_B (Some root) ''1''
       = (Success,
          escaping_B\<lparr>files := (\<lambda>p. if p \<in> unlink_targets app_dir (s_episodes escaping_series)
                                     then None else files escaping_B p),
                      series_B := remove_first (\<lambda>x. s_id x = ''1'') (series_B escaping_B)\<rparr>)"
    by blast
  from delete_series_B_cascade [OF a b3, of app_dir] c3
  have d3: "delete_series_B app_dir bare_B (Some root) ''1''
       = (Error ServerError,
          bare_B\<lparr>files := (\<lambda>p. if p \<in> unlink_targets app_dir (with_src (s_episodes bare_series))
                                 then None else files bare_B p)\<rparr>)"
    by blast
  have e1: "delete_series_B app_dir memory_B (Some root) ''1''
       = (Success, memory_B\<lparr>files := disk_B(''/srv/app/uploads/video-1-2.mp4'' := None),
                              series_B := []\<rparr>)"
    unfolding d1 t1 by (auto simp add: memory_B_def naruto_def fun_eq_iff)
  have e2: "delete_series_B app_dir escaping_B (Some root) ''1''
       = (Success, escaping_B\<lparr>files := disk_B(''/srv/app/uploads/video-1-2.mp4'' := None,
                                                  ''/srv/app/keep.txt'' := None),
                                series_B := []\<rparr>)"
    unfolding d2 t2 by (auto simp add: escaping_B_def escaping_series_def fun_eq_iff)
  have e3: "delete_series_B app_dir bare_B (Some root) ''1''
       = (Error ServerError, bare_B\<lparr>files := disk_B(''/srv/app/uploads/video-1-2.mp4'' := None)\<rparr>)"
    unfolding d3 t3 by (auto simp add: bare_B_def fun_eq_iff)
  have f1: "files memory_B ''/srv/app/uploads/video-1-2.mp4'' = Some ''video''"
    by (simp add: memory_B_def disk_B_def)
  have f2: "(disk_B(''/srv/app/uploads/video-1-2.mp4'' := None)) ''/srv/app/uploads/cover.png''
       = Some ''png''"
    by (simp add: disk_B_def)
  have f3: "files escaping_B ''/srv/app/keep.txt'' = Some ''kept''"
    by (simp add: escaping_B_def disk_B_def)
  have f4: "series_B bare_B = [bare_series]" by (simp add: bare_B_def)
  have g1: "app_dir \<noteq> []" "filename pilot_file \<noteq> []"
    by (simp_all add: app_dir_def pilot_file_def)
  have g2: "e_src ep1 = Some (''/uploads/'' @ filename pilot_file)"
    by (simp add: ep1_def pilot_file_def)
  from delete_series_B_cascade [OF a b1, of app_dir] g1
  have g3: "path_join app_dir (''/uploads/'' @ filename pilot_file) = file_path_B app_dir pilot_file"
    by blast
  have g4: "file_path_B app_dir pilot_file = ''/srv/app/uploads/video-1-2.mp4''"
    by (rule path_join_examples)
  from a g1 g2 g3 g4 memory_B_reachable b1 c1 t1 f1 e1 f2 escaping_B_reachable b2 c2 t2 f3 e2
    bare_B_reachable b3 c3 t3 e3 f4
  show ?thesis by blast
qed

text \<open>
  C3 as stated fails, in a state the in-memory server reaches: the cover image of the series is
  a file of the upload directory, the deletion succeeds, and the file is still there.
\<close>

theorem delete_series_keeps_cover:
  "reachable_B app_dir memory_B
   \<and> s_image naruto = ''/uploads/cover.png''
   \<and> path_join app_dir (s_image naruto) = ''/srv/app/uploads/cover.png''
   \<and> files memory_B ''/srv/app/uploads/cover.png'' = Some ''png''
   \<and> delete_series_B app_dir memory_B (Some root) ''1''
       = (Success, memory_B\<lparr>files := disk_B(''/srv/app/uploads/video-1-2.mp4'' := None),
                              series_B := []\<rparr>)
   \<and> files (snd (delete_series_B app_dir memory_B (Some root) ''1''))
        ''/srv/app/uploads/cover.png'' = Some ''png''"
  by (simp add: ex_delete_series_B memory_B_reachable)
     (simp add: naruto_def memory_B_def disk_B_def path_join_examples)

subsection \<open>Replacing the cover image\<close>

text \<open>
  C6, as the file-based server does it. For a series that is in the store,
  \<^verbatim>\<open>PUT /api/series/:id/image\<close> answers with the series carrying the new image (the empty string
  when the body has none), the store then holds that series in place of the old one, and no
  file other than the store's own is touched: the previous image is not deleted.
\<close>

theorem put_image_A_installs:
  assumes "load_series fs = Some series" and "find (\<lambda>x. s_id x = id') series = Some s"
  shows "fst (put_image_A fs (Some user) id' image') = SuccessWithSeries (s\<lparr>s_image := or_else image' []\<rparr>)
    \<and> load_series (snd (put_image_A fs (Some user) id' image'))
        = Some (update_first (\<lambda>x. s_id x = id') (\<lambda>x. x\<lparr>s_image := or_else image' []\<rparr>) series)
    \<and> find (\<lambda>x. s_id x = id')
         (update_first (\<lambda>x. s_id x = id') (\<lambda>x. x\<lparr>s_image := or_else image' []\<rparr>) series)
        = Some (s\<lparr>s_image := or_else image' []\<rparr>)
    \<and> (\<forall>p. p \<noteq> SERIES_FILE \<longrightarrow> snd (put_image_A fs (Some user) id' image') p = fs p)"
  using assms
  by (simp add: put_image_A_def Let_def load_save_series save_series_other find_update_first_id)

text \<open>C6, on the example: the new image is installed and the old file is where it was.\<close>

theorem put_image_A_installs_witness:
  "load_series disk_A = Some [naruto] \<and> find (\<lambda>x. s_id x = ''1'') [naruto] = Some naruto
   \<and> fst (put_image_A disk_A (Some bob) ''1'' (Some ''/uploads/new.png''))
       = SuccessWithSeries (naruto\<lparr>s_image := ''/uploads/new.png''\<rparr>)
   \<and> load_series (snd (put_image_A disk_A (Some bob) ''1'' (Some ''/uploads/new.png'')))
       = Some [naruto\<lparr>s_image := ''/uploads/new.png''\<rparr>]
   \<and> snd (put_image_A disk_A (Some bob) ''1'' (Some ''/uploads/new.png'')) ''/uploads/cover.png''
       = Some ''png''"
proof -
  have b: "find (\<lambda>x. s_id x = ''1'') [naruto] = Some naruto" by (simp add: naruto_def)
  have c: "''/uploads/cover.png'' \<noteq> SERIES_FILE" by (simp add: SERIES_FILE_def)
  from put_image_A_installs [OF load_series_disk_A b, of bob "Some ''/uploads/new.png''"] c
  have "snd (put_image_A disk_A (Some bob) ''1'' (Some ''/uploads/new.png'')) ''/uploads/cover.png''
        = disk_A ''/uploads/cover.png''"
    by blast
  then show ?thesis
    using load_series_disk_A b c
    by (simp add: ex_put_image_A load_save_series disk_A_other disk_def)
qed

text \<open>
  C6 as stated fails: the cover image is a file under \<^verbatim>\<open>/uploads/\<close>, the update succeeds, and the
  previous file has not been released.
\<close>

theorem put_image_keeps_old_blob:
  "load_series disk_A = Some [naruto] \<and> s_image naruto = ''/uploads/cover.png''
   \<and> disk_A ''/uploads/cover.png'' = Some ''png''
   \<and> fst (put_image_A disk_A (Some bob) ''1'' (Some ''/uploads/new.png''))
       = SuccessWithSeries (naruto\<lparr>s_image := ''/uploads/new.png''\<rparr>)
   \<and> snd (put_image_A disk_A (Some bob) ''1'' (Some ''/uploads/new.png'')) ''/uploads/cover.png''
       = Some ''png''"
  by (simp add: ex_put_image_A load_series_disk_A save_series_other disk_A_other SERIES_FILE_def)
     (simp add: naruto_def disk_def)

subsection \<open>A store that cannot be read\<close>

text \<open>
  C5, as \<^verbatim>\<open>readJson\<close> does it. When the file of the store is missing or its text does not
  parse, \<^verbatim>\<open>readJson\<close> returns the fallback it was given and reports nothing. So the list
  endpoint answers with the empty collection, the handlers see an empty collection, and a
  request to create a series succeeds and writes a collection of that one series over the
  file.
\<close>

theorem unreadable_store_reads_as_fallback:
  assumes "fs SERIES_FILE = None
           \<or> (\<exists>d. fs SERIES_FILE = Some d \<and> JSON_parse (if d = [] then ''null'' else d) = None)"
  shows "readJson fs SERIES_FILE fallback = fallback
    \<and> get_series_A fs = JArr []
    \<and> load_series fs = Some []
    \<and> (name \<noteq> [] \<longrightarrow>
         post_series_A toLowerCase fs (Some user) (Some name) desc image' now rnd
         = (SeriesCreated \<lparr>s_id = time_random_id now rnd, s_name = name,
                            s_desc = or_else desc [], s_image = or_else image' [],
                            s_pseudo = p_username user, s_episodes = []\<rparr>,
            save_series fs [\<lparr>s_id = time_random_id now rnd, s_name = name,
                              s_desc = or_else desc [], s_image = or_else image' [],
                              s_pseudo = p_username user, s_episodes = []\<rparr>]))"
proof -
  have r: "\<And>fb. readJson fs SERIES_FILE fb = fb"
    using assms by (rule readJson_fallback)
  then have l: "load_series fs = Some []"
    by (simp add: load_series_def collection_of_json_Nil)
  show ?thesis
    by (simp add: r l get_series_A_def post_series_A_def or_else_def Let_def)
qed

text \<open>C5, on a store whose file holds the two characters of a cut-off document.\<close>

theorem unreadable_store_reads_as_fallback_witness:
  "corrupt_disk SERIES_FILE = Some ''[{'' \<and> JSON_parse ''[{'' = None
   \<and> readJson corrupt_disk SERIES_FILE (JStr ''fallback'') = JStr ''fallback''
   \<and> get_series_A corrupt_disk = JArr []
   \<and> load_series corrupt_disk = Some []
   \<and> post_series_A ascii_lower corrupt_disk (Some bob) (Some ''Bleach'') None None 5 6
       = (SeriesCreated bleach, save_series corrupt_disk [bleach])"
proof -
  have a: "corrupt_disk SERIES_FILE = None
           \<or> (\<exists>d. corrupt_disk SERIES_FILE = Some d
                  \<and> JSON_parse (if d = [] then ''null'' else d) = None)"
    by (simp add: corrupt_disk_def JSON_parse_open)
  have n: "''Bleach'' \<noteq> []" by simp
  from unreadable_store_reads_as_fallback [where fs = corrupt_disk
      and fallback = "JStr ''fallback''"
      and name = "''Bleach''" and toLowerCase = ascii_lower and user = bob and desc = None
      and image' = None and now = 5 and rnd = 6, OF a] n
  show ?thesis
    by (simp add: corrupt_disk_def JSON_parse_open bleach_def bob_def or_else_def)
qed

text \<open>
  C5 as stated fails: the text of the store does not parse, yet listing answers with the empty
  collection, creating a series succeeds, and the store then holds the new series alone.
\<close>

theorem corrupt_store_silently_replaced:
  "corrupt_disk SERIES_FILE = Some ''[{'' \<and> JSON_parse ''[{'' = None
   \<and> get_series_A corrupt_disk = JArr []
   \<and> fst (post_series_A ascii_lower corrupt_disk (Some bob) (Some ''Bleach'') None None 5 6)
       = SeriesCreated bleach
   \<and> load_series (snd (post_series_A ascii_lower corrupt_disk (Some bob) (Some ''Bleach'')
                          None None 5 6))
       = Some [bleach]"
proof -
  have r: "\<And>fb. readJson corrupt_disk SERIES_FILE fb = fb"
    by (rule readJson_fallback) (simp add: corrupt_disk_def JSON_parse_open)
  have l: "load_series corrupt_disk = Some []"
    by (simp add: load_series_def r collection_of_json_Nil)
  have p: "post_series_A ascii_lower corrupt_disk (Some bob) (Some ''Bleach'') None None 5 6
       = (SeriesCreated bleach, save_series corrupt_disk [bleach])"
    by (simp add: post_series_A_def l or_else_def bleach_def bob_def Let_def)
  show ?thesis
    by (simp add: p load_save_series get_series_A_def r) (simp add: corrupt_disk_def JSON_parse_open)
qed

subsection \<open>Committing the store\<close>

text \<open>
  C4, as \<^verbatim>\<open>writeJson\<close> does it. A commit is one \<^verbatim>\<open>writeFileSync\<close> of the serialized collection
  onto the file of the store itself: no other path is written, so there is no temporary file
  and nothing to rename. When the call has returned, a load reads the value written. A crash
  after \<open>k\<close> bytes leaves the first \<open>k\<close> bytes of the new text in the file; right after the file
  was emptied (\<open>k = 0\<close>) the next load returns the fallback.
\<close>

theorem writeJson_in_place:
  "writeJson fs file obj = fs(file \<mapsto> stringify obj)
   \<and> (\<forall>p. p \<noteq> file \<longrightarrow> writeJson fs file obj p = fs p)
   \<and> (truthy obj \<longrightarrow> readJson (writeJson fs file obj) file fallback = obj)
   \<and> writeJson_crash fs file obj k = fs(file \<mapsto> take k (stringify obj))
   \<and> (length (stringify obj) \<le> k \<longrightarrow> writeJson_crash fs file obj k = writeJson fs file obj)
   \<and> readJson (writeJson_crash fs file obj 0) file fallback = fallback"
proof -
  have a: "writeJson fs file obj = fs(file \<mapsto> stringify obj)"
    by (simp add: writeJson_def writeFileSync_def)
  have b: "writeJson_crash fs file obj k = fs(file \<mapsto> take k (stringify obj))"
    by (simp add: writeJson_crash_def writeFileSync_crash_def)
  have c: "readJson (writeJson_crash fs file obj 0) file fallback = fallback"
    by (rule readJson_empty_file) (simp add: writeJson_crash_def writeFileSync_crash_def)
  have d: "truthy obj \<longrightarrow> readJson (writeJson fs file obj) file fallback = obj"
    by (simp add: readJson_writeJson)
  have e: "length (stringify obj) \<le> k \<longrightarrow> writeJson_crash fs file obj k = writeJson fs file obj"
    by (simp add: a b)
  have f: "\<forall>p. p \<noteq> file \<longrightarrow> writeJson fs file obj p = fs p"
    by (simp add: a)
  from a b c d e f show ?thesis by blast
qed

text \<open>C4, on the example store.\<close>

theorem writeJson_in_place_witness:
  "''/uploads/cover.png'' \<noteq> SERIES_FILE
   \<and> writeJson disk_A SERIES_FILE (collection_to_json [naruto, bleach]) ''/uploads/cover.png''
       = disk_A ''/uploads/cover.png''
   \<and> truthy (collection_to_json [naruto, bleach])
   \<and> readJson (writeJson disk_A SERIES_FILE (collection_to_json [naruto, bleach])) SERIES_FILE JNull
       = collection_to_json [naruto, bleach]
   \<and> length (stringify (JStr [])) \<le> 2
   \<and> writeJson_crash disk_A SERIES_FILE (JStr []) 2 = writeJson disk_A SERIES_FILE (JStr [])
   \<and> readJson (writeJson_crash disk_A SERIES_FILE (collection_to_json [naruto, bleach]) 0)
        SERIES_FILE (JArr []) = JArr []"
proof -
  have a: "''/uploads/cover.png'' \<noteq> SERIES_FILE" by (simp add: SERIES_FILE_def)
  have b: "truthy (collection_to_json [naruto, bleach])" by (simp add: collection_to_json_def)
  have c: "length (stringify (JStr [])) \<le> 2" by (simp add: stringify_def quote_def)
  from writeJson_in_place [of disk_A SERIES_FILE "collection_to_json [naruto, bleach]" JNull 0] a b
  have 1: "writeJson disk_A SERIES_FILE (collection_to_json [naruto, bleach]) ''/uploads/cover.png''
       = disk_A ''/uploads/cover.png''"
    and 2: "readJson (writeJson disk_A SERIES_FILE (collection_to_json [naruto, bleach])) SERIES_FILE JNull
       = collection_to_json [naruto, bleach]"
    by blast+
  from writeJson_in_place [of disk_A SERIES_FILE "JStr []" JNull 2] c
  have 3: "writeJson_crash disk_A SERIES_FILE (JStr []) 2 = writeJson disk_A SERIES_FILE (JStr [])"
    by blast
  from writeJson_in_place [of disk_A SERIES_FILE "collection_to_json [naruto, bleach]" "JArr []" 0]
  have 4: "readJson (writeJson_crash disk_A SERIES_FILE (collection_to_json [naruto, bleach]) 0)
        SERIES_FILE (JArr []) = JArr []"
    by blast
  show ?thesis using a b c 1 2 3 4 by blast
qed

text \<open>
  C4 as stated fails: the store holds one series and a commit of two is interrupted. Stopped
  after the file was emptied, or after its first byte, the next load sees neither the old
  collection nor the new one but an empty one; only the completed write shows the new one, and
  it leaves the same files as before: the store was written in place.
\<close>

theorem crash_mid_write_truncates:
  "load_series disk_A = Some [naruto]
   \<and> writeJson_crash disk_A SERIES_FILE (collection_to_json [naruto, bleach]) 0 SERIES_FILE = Some []
   \<and> load_series (writeJson_crash disk_A SERIES_FILE (collection_to_json [naruto, bleach]) 0) = Some []
   \<and> writeJson_crash disk_A SERIES_FILE (collection_to_json [naruto, bleach]) 1 SERIES_FILE = Some ''[''
   \<and> JSON_parse ''['' = None
   \<and> load_series (writeJson_crash disk_A SERIES_FILE (collection_to_json [naruto, bleach]) 1) = Some []
   \<and> load_series (writeJson disk_A SERIES_FILE (collection_to_json [naruto, bleach]))
       = Some [naruto, bleach]
   \<and> dom (writeJson disk_A SERIES_FILE (collection_to_json [naruto, bleach])) = dom disk_A"
proof -
  let ?new = "collection_to_json [naruto, bleach]"
  have dm: "dom (writeJson disk_A SERIES_FILE ?new) = dom disk_A"
    by (auto simp add: writeJson_def writeFileSync_def disk_A_def save_series_def)
  have t: "take 1 (stringify ?new) = ''[''"
    by (simp add: collection_to_json_def stringify_JArr_Cons_take1 del: One_nat_def)
  have c1: "writeJson_crash disk_A SERIES_FILE ?new 1 SERIES_FILE = Some ''[''"
    by (simp add: writeJson_crash_def writeFileSync_crash_def t del: One_nat_def)
  have c0: "writeJson_crash disk_A SERIES_FILE ?new 0 SERIES_FILE = Some []"
    by (simp add: writeJson_crash_def writeFileSync_crash_def)
  have r0: "readJson (writeJson_crash disk_A SERIES_FILE ?new 0) SERIES_FILE (JArr []) = JArr []"
    using c0 by (rule readJson_empty_file)
  have r1: "readJson (writeJson_crash disk_A SERIES_FILE ?new 1) SERIES_FILE (JArr []) = JArr []"
    using c1 JSON_parse_bracket
    by (intro readJson_fallback disjI2 exI [of _ "''[''"]) simp
  have full: "load_series (writeJson disk_A SERIES_FILE ?new) = Some [naruto, bleach]"
    using load_save_series [of disk_A "[naruto, bleach]"] by (simp add: save_series_def)
  have l0: "load_series (writeJson_crash disk_A SERIES_FILE ?new 0) = Some []"
    by (simp only: load_series_def r0 collection_of_json_Nil)
  have l1: "load_series (writeJson_crash disk_A SERIES_FILE ?new 1) = Some []"
    by (simp only: load_series_def r1 collection_of_json_Nil)
  from c0 c1 full l0 l1 dm load_series_disk_A JSON_parse_bracket show ?thesis by blast
qed

subsection \<open>The identifiers of a new series and its episodes\<close>

text \<open>
  C8, as the two servers do it. In every state the in-memory server can reach, a successful
  \<^verbatim>\<open>POST /api/series\<close> gives the new series the decimal of the counter \<^verbatim>\<open>nextSeriesId\<close>: an id
  that no series of the collection has and that leaves the ids of the collection pairwise
  different. Whatever requests follow, to any of the routes and in any number, the ids of the
  collection stay pairwise different and no later creation gets that id again, also after the
  series has been deleted. The episode made from the k-th spec (k from 1, in the order of the
  specs) gets the id of the series, a dash and k, and the title of that spec. The file-based
  server's creation takes no episode specs: the new series has no episodes and its id is the
  clock value, a dash and the random draw, so two of its ids are equal exactly when both the
  clock values and the draws are.
\<close>

theorem series_creation_ids:
  "(reachable_B dirname st \<and>
    post_series_B dirname st auth req_files pseudo name desc image' episodes
      = (SeriesCreated new, st')
    \<longrightarrow> s_id new = show_nat (nextSeriesId st)
        \<and> s_id new \<notin> set (map s_id (series_B st))
        \<and> series_B st' = series_B st @ [new]
        \<and> distinct (map s_id (series_B st'))
        \<and> nextSeriesId st' = nextSeriesId st + 1
        \<and> (\<exists>specs. episodes = Some specs
              \<and> map e_id (s_episodes new)
                  = map (\<lambda>k. s_id new @ ''-'' @ show_nat (k + 1)) [0..<length specs]
              \<and> map e_title (s_episodes new) = map sp_title specs)
        \<and> (steps_B dirname st' st2
            \<longrightarrow> distinct (map s_id (series_B st2))
                \<and> (post_series_B dirname st2 auth2 req_files2 pseudo2 name2 desc2 image2 episodes2
                      = (SeriesCreated new2, st3)
                    \<longrightarrow> s_id new2 \<noteq> s_id new \<and> s_id new2 \<notin> set (map s_id (series_B st2)))))
   \<and> (post_series_A toLowerCase fs authA nameA descA imageA now rnd = (SeriesCreated newA, fs')
      \<longrightarrow> s_id newA = time_random_id now rnd \<and> s_episodes newA = [])
   \<and> (time_random_id now rnd = time_random_id now' rnd' \<longleftrightarrow> now = now' \<and> rnd = rnd')"
proof (intro conjI impI)
  assume a: "reachable_B dirname st \<and>
    post_series_B dirname st auth req_files pseudo name desc image' episodes
      = (SeriesCreated new, st')"
  then have "reachable_B dirname st" by simp
  then have inv: "counter_ids (nextSeriesId st) (series_B st)"
    by (rule reachable_B_counter_ids)
  from a post_series_B_created [of dirname st auth req_files pseudo name desc image' episodes new st']
  obtain specs eps where c: "episodes = Some specs"
      "finalEpisodes (nextSeriesId st) (or_else pseudo []) req_files specs = Some eps"
      "s_id new = show_nat (nextSeriesId st)" "s_episodes new = eps"
      "series_B st' = series_B st @ [new]" "nextSeriesId st' = nextSeriesId st + 1"
    by auto
  show "s_id new = show_nat (nextSeriesId st)" by (rule c(3))
  show "s_id new \<notin> set (map s_id (series_B st))"
    using counter_ids_fresh [OF inv] c(3) by simp
  show "series_B st' = series_B st @ [new]" by (rule c(5))
  have inv': "counter_ids (nextSeriesId st') (series_B st')"
    using counter_ids_snoc [OF inv c(3)] c(5) c(6) by simp
  then show "distinct (map s_id (series_B st'))" by (simp add: counter_ids_def)
  show "nextSeriesId st' = nextSeriesId st + 1" by (rule c(6))
  show "\<exists>specs. episodes = Some specs
              \<and> map e_id (s_episodes new)
                  = map (\<lambda>k. s_id new @ ''-'' @ show_nat (k + 1)) [0..<length specs]
              \<and> map e_title (s_episodes new) = map sp_title specs"
    using finalEpisodes_ids [OF c(2)] c(1) c(3) c(4) by simp
  assume s: "steps_B dirname st' st2"
  from s inv' have inv2: "counter_ids (nextSeriesId st2) (series_B st2)"
    by (rule steps_B_counter_ids)
  then show "distinct (map s_id (series_B st2))" by (simp add: counter_ids_def)
  from s have m: "nextSeriesId st' \<le> nextSeriesId st2" by (rule steps_B_counter_mono)
  assume b: "post_series_B dirname st2 auth2 req_files2 pseudo2 name2 desc2 image2 episodes2
              = (SeriesCreated new2, st3)"
  from post_series_B_created [OF b] have n2: "s_id new2 = show_nat (nextSeriesId st2)" by auto
  from m c(6) have "nextSeriesId st2 \<noteq> nextSeriesId st" by simp
  with n2 c(3) show "s_id new2 \<noteq> s_id new"
    using show_nat_inj [of "nextSeriesId st2" "nextSeriesId st"] by auto
  show "s_id new2 \<notin> set (map s_id (series_B st2))"
    using counter_ids_fresh [OF inv2] n2 by simp
next
  assume a: "post_series_A toLowerCase fs authA nameA descA imageA now rnd = (SeriesCreated newA, fs')"
  then show "s_id newA = time_random_id now rnd"
    by (auto simp add: post_series_A_def Let_def split: option.splits if_splits)
  from a show "s_episodes newA = []"
    by (auto simp add: post_series_A_def Let_def split: option.splits if_splits)
next
  show "time_random_id now rnd = time_random_id now' rnd' \<longleftrightarrow> now = now' \<and> rnd = rnd'"
    by (rule time_random_id_inj)
qed

text \<open>
  C8, at concrete requests. The in-memory server, started empty in \<^verbatim>\<open>/srv/app\<close>, creates a series
  with an upload and a link and gives it the id 1; an administrator deletes that series; the
  next creation gets the id 2, not 1 again. The file-based server creates one series.
\<close>

theorem series_creation_ids_witness:
  "reachable_B app_dir (init_B cover_disk)
   \<and> post_series_B app_dir (init_B cover_disk) (Some bob) [pilot_file] (Some ''bob'')
       (Some ''Naruto'') None None (Some [pilot_spec, link_spec])
     = (SeriesCreated (naruto_B ''1'' ''Naruto''),
        \<lparr>series_B = [naruto_B ''1'' ''Naruto''], nextSeriesId = 2, files = disk_B\<rparr>)
   \<and> map e_id (s_episodes (naruto_B ''1'' ''Naruto'')) = [''1-1'', ''1-2'']
   \<and> delete_series_B app_dir
       \<lparr>series_B = [naruto_B ''1'' ''Naruto''], nextSeriesId = 2, files = disk_B\<rparr>
       (Some root) ''1''
     = (Success,
        \<lparr>series_B = [], nextSeriesId = 2,
         files = disk_B(''/srv/app/uploads/video-1-2.mp4'' := None)\<rparr>)
   \<and> steps_B app_dir
       \<lparr>series_B = [naruto_B ''1'' ''Naruto''], nextSeriesId = 2, files = disk_B\<rparr>
       \<lparr>series_B = [], nextSeriesId = 2,
        files = disk_B(''/srv/app/uploads/video-1-2.mp4'' := None)\<rparr>
   \<and> post_series_B app_dir
       \<lparr>series_B = [], nextSeriesId = 2,
        files = disk_B(''/srv/app/uploads/video-1-2.mp4'' := None)\<rparr>
       (Some bob) [pilot_file] (Some ''bob'') (Some ''Bleach'') None None
       (Some [pilot_spec, link_spec])
     = (SeriesCreated (naruto_B ''2'' ''Bleach''),
        \<lparr>series_B = [naruto_B ''2'' ''Bleach''], nextSeriesId = 3,
         files = multer_store_B app_dir (disk_B(''/srv/app/uploads/video-1-2.mp4'' := None))
                   pilot_file\<rparr>)
   \<and> s_id (naruto_B ''2'' ''Bleach'') \<noteq> s_id (naruto_B ''1'' ''Naruto'')
   \<and> post_series_A ascii_lower fresh_disk (Some bob) (Some ''Naruto'') None None 5 6
     = (SeriesCreated narutoA, save_series fresh_disk [narutoA])
   \<and> s_id narutoA = time_random_id 5 6 \<and> s_episodes narutoA = []
   \<and> time_random_id 5 6 \<noteq> time_random_id 5 7"
proof -
  let ?st1 = "\<lparr>series_B = [naruto_B ''1'' ''Naruto''], nextSeriesId = 2, files = disk_B\<rparr>"
  let ?st2 = "\<lparr>series_B = [], nextSeriesId = 2,
               files = disk_B(''/srv/app/uploads/video-1-2.mp4'' := None)\<rparr>"
  let ?st3 = "\<lparr>series_B = [naruto_B ''2'' ''Bleach''], nextSeriesId = 3,
         files = multer_store_B app_dir (disk_B(''/srv/app/uploads/video-1-2.mp4'' := None))
                   pilot_file\<rparr>"
  have r: "reachable_B app_dir (init_B cover_disk)" by (rule init_B_reachable)
  have p1: "post_series_B app_dir (init_B cover_disk) (Some bob) [pilot_file] (Some ''bob'')
       (Some ''Naruto'') None None (Some [pilot_spec, link_spec])
       = (SeriesCreated (naruto_B ''1'' ''Naruto''), ?st1)"
    by (simp add: ex_post_series_B init_B_def show_nat_small multer_store_B_pilot)
  have dl: "delete_series_B app_dir ?st1 (Some root) ''1'' = (Success, ?st2)"
    by (simp add: delete_series_B_def root_def naruto_B_def unlink_upload_eq startsWith_def
        path_join_examples)
  have st: "steps_B app_dir ?st1 ?st2"
    using steps_B.delete_series [OF steps_B.no_request, of app_dir ?st1 "Some root" "''1''"]
    by (simp add: dl)
  have p2: "post_series_B app_dir ?st2 (Some bob) [pilot_file] (Some ''bob'') (Some ''Bleach'')
       None None (Some [pilot_spec, link_spec]) = (SeriesCreated (naruto_B ''2'' ''Bleach''), ?st3)"
    by (simp add: ex_post_series_B show_nat_small)
  have pa: "post_series_A ascii_lower fresh_disk (Some bob) (Some ''Naruto'') None None 5 6
     = (SeriesCreated narutoA, save_series fresh_disk [narutoA])"
    by (rule ex_post_series_A_first)
  note inst = series_creation_ids [where dirname = app_dir and st = "init_B cover_disk"
      and auth = "Some bob"
      and req_files = "[pilot_file]" and pseudo = "Some ''bob''" and name = "Some ''Naruto''"
      and desc = None and image' = None and episodes = "Some [pilot_spec, link_spec]"
      and new = "naruto_B ''1'' ''Naruto''" and st' = ?st1 and ?st2.0 = ?st2
      and ?auth2.0 = "Some bob" and ?req_files2.0 = "[pilot_file]" and ?pseudo2.0 = "Some ''bob''"
      and ?name2.0 = "Some ''Bleach''" and ?desc2.0 = None and ?image2.0 = None
      and ?episodes2.0 = "Some [pilot_spec, link_spec]"
      and ?new2.0 = "naruto_B ''2'' ''Bleach''" and ?st3.0 = ?st3
      and toLowerCase = ascii_lower and fs = fresh_disk and authA = "Some bob"
      and nameA = "Some ''Naruto''" and descA = None and imageA = None and now = 5 and rnd = 6
      and newA = narutoA and fs' = "save_series fresh_disk [narutoA]"
      and now' = 5 and rnd' = 7]
  from inst r p1 st p2 have a: "s_id (naruto_B ''2'' ''Bleach'') \<noteq> s_id (naruto_B ''1'' ''Naruto'')"
    by blast
  from inst r p1 have b: "map e_id (s_episodes (naruto_B ''1'' ''Naruto''))
      = map (\<lambda>k. s_id (naruto_B ''1'' ''Naruto'') @ ''-'' @ show_nat (k + 1)) [0..<length [pilot_spec, link_spec]]"
    by blast
  from inst pa have c: "s_id narutoA = time_random_id 5 6 \<and> s_episodes narutoA = []"
    by blast
  from inst have d: "time_random_id 5 6 \<noteq> time_random_id 5 7"
    by simp
  from b have b': "map e_id (s_episodes (naruto_B ''1'' ''Naruto'')) = [''1-1'', ''1-2'']"
    by (simp add: naruto_B_def)
  from r p1 b' dl st p2 a pa c d show ?thesis by blast
qed

text \<open>
  C8 as stated fails: in the file-based server two creations with different names, served in
  the same millisecond with the same random draw, both succeed and the two series of the store
  have one id.
\<close>

theorem two_creations_share_an_id:
  "post_series_A ascii_lower fresh_disk (Some bob) (Some ''Naruto'') None None 5 6
     = (SeriesCreated narutoA, save_series fresh_disk [narutoA])
   \<and> post_series_A ascii_lower (save_series fresh_disk [narutoA]) (Some bob) (Some ''Bleach'')
       None None 5 6
     = (SeriesCreated bleach, save_series (save_series fresh_disk [narutoA]) [narutoA, bleach])
   \<and> load_series (save_series (save_series fresh_disk [narutoA]) [narutoA, bleach])
     = Some [narutoA, bleach]
   \<and> s_name narutoA = ''Naruto'' \<and> s_name bleach = ''Bleach''
   \<and> s_id narutoA = s_id bleach"
  by (simp add: ex_post_series_A_first ex_post_series_A_second load_save_series)
     (simp add: narutoA_def bleach_def)

subsection \<open>Two names that differ only in case\<close>

text \<open>
  C1, evaluated where the code departs from it. The in-memory server, started empty, is asked to
  create \<^verbatim>\<open>Naruto\<close> and then \<^verbatim>\<open>naruto\<close>: both requests succeed and the collection holds two series
  whose names are equal in lower case. Its handler never compares names.
\<close>

theorem case_variant_accepted_B:
  "post_series_B app_dir (init_B cover_disk) (Some bob) [pilot_file] (Some ''bob'')
       (Some ''Naruto'') None None (Some [pilot_spec, link_spec])
     = (SeriesCreated (naruto_B ''1'' ''Naruto''),
        \<lparr>series_B = [naruto_B ''1'' ''Naruto''], nextSeriesId = 2, files = disk_B\<rparr>)
   \<and> post_series_B app_dir
       \<lparr>series_B = [naruto_B ''1'' ''Naruto''], nextSeriesId = 2, files = disk_B\<rparr>
       (Some bob) [pilot_file] (Some ''bob'') (Some ''naruto'') None None
       (Some [pilot_spec, link_spec])
     = (SeriesCreated (naruto_B ''2'' ''naruto''),
        \<lparr>series_B = [naruto_B ''1'' ''Naruto'', naruto_B ''2'' ''naruto''], nextSeriesId = 3,
         files = multer_store_B app_dir disk_B pilot_file\<rparr>)
   \<and> map s_name [naruto_B ''1'' ''Naruto'', naruto_B ''2'' ''naruto''] = [''Naruto'', ''naruto'']
   \<and> ascii_lower ''Naruto'' = ascii_lower ''naruto''"
  by (simp add: ex_post_series_B init_B_def show_nat_small ascii_lower_examples
      multer_store_B_pilot)
     (simp add: naruto_B_def)

text \<open>
  The file-based server does what C1 says. From a store whose names are pairwise different in
  lower case, any request to create a series leaves a store with that property; and after a
  successful creation, a request with a name equal to the first in lower case is refused with
  \<^verbatim>\<open>Series already exists\<close>, the store is not written, and it holds exactly one series of that
  name.
\<close>

theorem post_series_A_unique_names:
  assumes "load_series fs = Some series" and "distinct (map (\<lambda>s. lc (s_name s)) series)"
  shows "(\<exists>series'. load_series (snd (post_series_A lc fs auth name desc image' now rnd)) = Some series'
            \<and> distinct (map (\<lambda>s. lc (s_name s)) series'))
    \<and> (post_series_A lc fs auth1 (Some n1) d1 i1 t1 r1 = (SeriesCreated x, fs1)
         \<and> lc n2 = lc n1 \<and> n2 \<noteq> []
       \<longrightarrow> post_series_A lc fs1 (Some u2) (Some n2) d2 i2 t2 r2 = (Error SeriesAlreadyExists, fs1)
           \<and> (\<exists>series1. load_series fs1 = Some series1
                 \<and> length (filter (\<lambda>s. lc (s_name s) = lc n1) series1) = 1))"
proof (intro conjI impI)
  from post_series_A_outcomes [OF assms(1), of lc auth name desc image' now rnd]
  show "\<exists>series'. load_series (snd (post_series_A lc fs auth name desc image' now rnd)) = Some series'
            \<and> distinct (map (\<lambda>s. lc (s_name s)) series')"
  proof
    assume "snd (post_series_A lc fs auth name desc image' now rnd) = fs"
    with assms show ?thesis by simp
  next
    assume "\<exists>new. find (\<lambda>s. lc (s_name s) = lc (s_name new)) series = None
          \<and> post_series_A lc fs auth name desc image' now rnd
              = (SeriesCreated new, save_series fs (series @ [new]))"
    then obtain new where n: "find (\<lambda>s. lc (s_name s) = lc (s_name new)) series = None"
      and p: "post_series_A lc fs auth name desc image' now rnd
              = (SeriesCreated new, save_series fs (series @ [new]))"
      by blast
    from n have "lc (s_name new) \<notin> set (map (\<lambda>s. lc (s_name s)) series)"
      by (auto simp add: find_None_iff)
    with assms(2) have "distinct (map (\<lambda>s. lc (s_name s)) (series @ [new]))" by simp
    with p show ?thesis by (simp add: load_save_series)
  qed
next
  assume a: "post_series_A lc fs auth1 (Some n1) d1 i1 t1 r1 = (SeriesCreated x, fs1)
         \<and> lc n2 = lc n1 \<and> n2 \<noteq> []"
  with post_series_A_created [of lc fs auth1 "Some n1" d1 i1 t1 r1 x fs1] assms(1)
  have f: "find (\<lambda>s. lc (s_name s) = lc (s_name x)) series = None"
    and fs1: "fs1 = save_series fs (series @ [x])" and nx: "s_name x = or_else (Some n1) []"
    by auto
  from a have "n1 \<noteq> []" by (auto simp add: post_series_A_def or_else_def split: option.splits if_splits)
  with nx have nx': "s_name x = n1" by (simp add: or_else_def)
  have l: "load_series fs1 = Some (series @ [x])" by (simp add: fs1 load_save_series)
  have "find (\<lambda>s. lc (s_name s) = lc n2) (series @ [x]) \<noteq> None"
    using a nx' by (auto simp add: find_None_iff)
  then obtain y where y: "find (\<lambda>s. lc (s_name s) = lc n2) (series @ [x]) = Some y" by auto
  from a have n2: "n2 \<noteq> []" by simp
  show "post_series_A lc fs1 (Some u2) (Some n2) d2 i2 t2 r2 = (Error SeriesAlreadyExists, fs1)"
    by (simp add: post_series_A_def l or_else_def y n2)
  have "filter (\<lambda>s. lc (s_name s) = lc n1) (series @ [x]) = [x]"
    using find_None_filter [OF f] nx' by simp
  with l show "\<exists>series1. load_series fs1 = Some series1
                 \<and> length (filter (\<lambda>s. lc (s_name s) = lc n1) series1) = 1"
    by simp
qed

text \<open>On the example: \<^verbatim>\<open>Naruto\<close> is created in an empty store and \<^verbatim>\<open>naruto\<close> is then refused.\<close>

theorem post_series_A_unique_names_witness:
  "load_series fresh_disk = Some [] \<and> distinct (map (\<lambda>s. ascii_lower (s_name s)) [])
   \<and> post_series_A ascii_lower fresh_disk (Some bob) (Some ''Naruto'') None None 5 6
       = (SeriesCreated narutoA, save_series fresh_disk [narutoA])
   \<and> ascii_lower ''naruto'' = ascii_lower ''Naruto'' \<and> ''naruto'' \<noteq> []
   \<and> post_series_A ascii_lower (save_series fresh_disk [narutoA]) (Some bob) (Some ''naruto'')
       None None 7 8
       = (Error SeriesAlreadyExists, save_series fresh_disk [narutoA])
   \<and> load_series (save_series fresh_disk [narutoA]) = Some [narutoA]
   \<and> length (filter (\<lambda>s. ascii_lower (s_name s) = ascii_lower ''Naruto'') [narutoA]) = 1"
proof -
  have d: "distinct (map (\<lambda>s. ascii_lower (s_name s)) [])" by simp
  have e: "ascii_lower ''naruto'' = ascii_lower ''Naruto''" by (simp add: ascii_lower_examples)
  have n: "''naruto'' \<noteq> []" by simp
  from post_series_A_unique_names [OF load_series_fresh_disk d, where ?auth1.0 = "Some bob"
      and ?n1.0 = "''Naruto''" and ?d1.0 = None and ?i1.0 = None and ?t1.0 = 5 and ?r1.0 = 6
      and x = narutoA and ?fs1.0 = "save_series fresh_disk [narutoA]" and ?n2.0 = "''naruto''"
      and ?u2.0 = bob and ?d2.0 = None and ?i2.0 = None and ?t2.0 = 7 and ?r2.0 = 8]
    ex_post_series_A_first e n
  have "post_series_A ascii_lower (save_series fresh_disk [narutoA]) (Some bob) (Some ''naruto'')
       None None 7 8 = (Error SeriesAlreadyExists, save_series fresh_disk [narutoA])"
    by blast
  moreover have "length (filter (\<lambda>s. ascii_lower (s_name s) = ascii_lower ''Naruto'') [narutoA]) = 1"
    by (simp add: narutoA_def)
  ultimately show ?thesis
    using load_series_fresh_disk d ex_post_series_A_first e n load_save_series [of fresh_disk "[narutoA]"]
    by blast
qed

subsection \<open>An upload for a series that does not exist\<close>

text \<open>
  C2, evaluated where the code departs from it. The file-based server receives an episode with
  an uploaded file for an id that no series has: it answers 404, and the file multer stored
  for the request, which was not there before, is still in the upload directory. The handler
  returns without unlinking it.
\<close>

theorem orphan_upload_left_A:
  "load_series disk_A = Some [naruto]
   \<and> find (\<lambda>x. s_id x = ''404'') [naruto] = None
   \<and> disk_A (file_path clip) = None
   \<and> post_episode_A disk_A (Some bob) ''404'' (Some clip) None None None 5 6
       = (Error SeriesNotFound, multer_store disk_A clip)
   \<and> multer_store disk_A clip (file_path clip) = Some ''bytes''"
proof -
  have a: "find (\<lambda>x. s_id x = ''404'') [naruto] = None" by (simp add: naruto_def)
  have b: "disk_A (file_path clip) = None"
    by (simp add: disk_A_other file_path_def SERIES_FILE_def clip_def disk_def)
  have c: "post_episode_A disk_A (Some bob) ''404'' (Some clip) None None None 5 6
       = (Error SeriesNotFound, multer_store disk_A clip)"
    by (simp add: post_episode_A_def load_series_multer_store load_series_disk_A naruto_def)
  have d: "multer_store disk_A clip (file_path clip) = Some ''bytes''"
    by (simp add: multer_store_def clip_def)
  from load_series_disk_A a b c d show ?thesis by blast
qed

text \<open>
  The in-memory server does what C2 says. For an id that no series of the collection has, an
  episode request with an uploaded file is answered with 404, the collection and the counter
  are as before, and no file is left at the path multer stored the upload under.
\<close>

theorem post_episode_B_discards_upload:
  assumes "find (\<lambda>s. s_id s = id') (series_B st) = None"
  shows "post_episode_B dirname st (Some user) id' (Some f) title url pseudo
         = (Error SeriesNotFound, st\<lparr>files := (files st)(file_path_B dirname f := None)\<rparr>)"
  using assms
  by (simp add: post_episode_B_def Let_def multer_store_B_def unlinkSync_def)

text \<open>On the example collection, with an id no series has and a part named \<^verbatim>\<open>video\<close>.\<close>

theorem post_episode_B_discards_upload_witness:
  "find (\<lambda>s. s_id s = ''404'') (series_B memory_B) = None
   \<and> fieldname clip_B = ''video''
   \<and> file_path_B app_dir clip_B = ''/srv/app/uploads/video-7-8.mp4''
   \<and> post_episode_B app_dir memory_B (Some bob) ''404'' (Some clip_B) None None None
       = (Error SeriesNotFound,
          memory_B\<lparr>files := (files memory_B)(''/srv/app/uploads/video-7-8.mp4'' := None)\<rparr>)
   \<and> ((files memory_B)(''/srv/app/uploads/video-7-8.mp4'' := None))
        ''/srv/app/uploads/video-7-8.mp4'' = None"
proof -
  have a: "find (\<lambda>s. s_id s = ''404'') (series_B memory_B) = None"
    by (simp add: memory_B_def naruto_def)
  have v: "fieldname clip_B = ''video''" by (simp add: clip_B_def)
  from post_episode_B_discards_upload [OF a, of app_dir bob clip_B None None None] a v
  show ?thesis by (simp add: path_join_examples)
qed

end
